theory Spec2Isabelle
  imports Complex_Main "HOL-Library.Code_Target_Numeral"
begin

section \<open>JavaScript numbers\<close>

text \<open>
  The source computes with JavaScript numbers, which are IEEE 754 doubles. A number is \<open>NaN\<close>,
  one of the two infinities, or a finite value, given as the rational it denotes. Every double
  is such a rational; an operation that computes a new finite value (a subtraction, the
  conversion of a text) rounds its exact result to the nearest double, ties to even, by
  \<open>double_round\<close>. The sign of zero is not represented: \<open>-0\<close> and \<open>+0\<close> are both falsy and
  compare equal in every expression modelled here.
\<close>

datatype number = NaN | PInf | NInf | Fin rat

text \<open>The number of bits of a natural number, and the integer part of the binary logarithm
  of a positive rational.\<close>

fun bit_length :: "nat \<Rightarrow> nat" where
  "bit_length n = (if n = 0 then 0 else Suc (bit_length (n div 2)))"

declare bit_length.simps [simp del]

definition pow2 :: "int \<Rightarrow> rat" where
  "pow2 k = (if 0 \<le> k then 2 ^ nat k else 1 / 2 ^ nat (- k))"

definition ilog2 :: "rat \<Rightarrow> int" where
  "ilog2 a =
     (if 1 \<le> a then int (bit_length (nat \<lfloor>a\<rfloor>)) - 1
      else - int (bit_length (nat (\<lceil>1 / a\<rceil> - 1))))"

definition round_half_even :: "rat \<Rightarrow> int" where
  "round_half_even y =
     (let f = \<lfloor>y\<rfloor>; d = y - of_int f
      in if d < 1 / 2 then f else if 1 / 2 < d then f + 1 else if even f then f else f + 1)"

text \<open>
  Rounding to the nearest double: a double with binary exponent \<open>e\<close> is a multiple of
  \<open>2^(e - 52)\<close>; exponents below \<open>-1022\<close> are denormal; a result of \<open>2^1024\<close> or more is an
  infinity.
\<close>

definition double_round :: "rat \<Rightarrow> number" where
  "double_round x =
     (if x = 0 then Fin 0
      else
        let a = \<bar>x\<bar>;
            e = max (ilog2 a) (- 1022);
            ulp = pow2 (e - 52);
            y = of_int (round_half_even (a / ulp)) * ulp
        in if pow2 1024 \<le> y then (if 0 < x then PInf else NInf)
           else Fin (if 0 < x then y else - y))"

text \<open>Truthiness of a number, as used by \<open>x || y\<close>: \<open>NaN\<close> and zero are falsy.\<close>

fun truthy :: "number \<Rightarrow> bool" where
  "truthy NaN = False"
| "truthy (Fin q) = (q \<noteq> 0)"
| "truthy PInf = True"
| "truthy NInf = True"

text \<open>\<open>a || b\<close> on numbers.\<close>

definition or_num :: "number \<Rightarrow> number \<Rightarrow> number" where
  "or_num a b = (if truthy a then a else b)"

text \<open>\<open>a <= b\<close> and \<open>a > b\<close>: every comparison with \<open>NaN\<close> is false.\<close>

fun num_le :: "number \<Rightarrow> number \<Rightarrow> bool" where
  "num_le NaN _ = False"
| "num_le _ NaN = False"
| "num_le NInf _ = True"
| "num_le _ PInf = True"
| "num_le PInf _ = False"
| "num_le _ NInf = False"
| "num_le (Fin a) (Fin b) = (a \<le> b)"

definition num_gt :: "number \<Rightarrow> number \<Rightarrow> bool" where
  "num_gt a b = (a \<noteq> NaN \<and> b \<noteq> NaN \<and> \<not> num_le a b)"

text \<open>\<open>Math.max(a, b)\<close>: \<open>NaN\<close> if either argument is \<open>NaN\<close>, otherwise the larger one.\<close>

definition Math_max :: "number \<Rightarrow> number \<Rightarrow> number" where
  "Math_max a b = (if a = NaN \<or> b = NaN then NaN else if num_le a b then b else a)"

text \<open>\<open>a - b\<close>: the exact difference of two finite numbers, rounded.\<close>

fun num_sub :: "number \<Rightarrow> number \<Rightarrow> number" where
  "num_sub NaN _ = NaN"
| "num_sub _ NaN = NaN"
| "num_sub PInf PInf = NaN"
| "num_sub NInf NInf = NaN"
| "num_sub PInf _ = PInf"
| "num_sub NInf _ = NInf"
| "num_sub (Fin a) PInf = NInf"
| "num_sub (Fin a) NInf = PInf"
| "num_sub (Fin a) (Fin b) = double_round (a - b)"

text \<open>\<open>a === b\<close> on numbers (\<open>NaN\<close> is not equal to itself) and \<open>Object.is(a, b)\<close>, the
  comparison React applies to state values and effect dependencies.\<close>

definition strict_eq :: "number \<Rightarrow> number \<Rightarrow> bool" where
  "strict_eq a b = (a \<noteq> NaN \<and> a = b)"

definition same_value :: "number \<Rightarrow> number \<Rightarrow> bool" where
  "same_value a b = (a = b)"

subsection \<open>\<open>Number(string)\<close>\<close>

text \<open>
  \<open>Number\<close> applied to a string follows the StringNumericLiteral grammar of ECMAScript: white
  space is trimmed, the empty string is \<open>0\<close>, then come an optionally signed decimal literal
  (digits, fraction, exponent, or \<open>Infinity\<close>) or an unsigned binary, octal or hexadecimal
  integer literal; anything else is \<open>NaN\<close>. The value of a literal is rounded to a double.
  A text is a list of code units, and the type \<open>char\<close> holds the code units below 256: a text
  with a code unit from 256 on is not a value of the type. Of the white space that \<open>Number\<close>
  trims, the code units 9 to 13, 32 and 160 lie in that range.
\<close>

definition is_ws :: "char \<Rightarrow> bool" where
  "is_ws c = (c \<in> set [CHR 0x09, CHR 0x0A, CHR 0x0B, CHR 0x0C, CHR 0x0D, CHR 0x20, CHR 0xA0])"

definition trim :: "string \<Rightarrow> string" where
  "trim s = rev (dropWhile is_ws (rev (dropWhile is_ws s)))"

definition digit_val :: "char \<Rightarrow> nat option" where
  "digit_val c =
     (let n = (of_char c :: nat) in
      if 48 \<le> n \<and> n \<le> 57 then Some (n - 48)
      else if 97 \<le> n \<and> n \<le> 102 then Some (n - 87)
      else if 65 \<le> n \<and> n \<le> 70 then Some (n - 55)
      else None)"

definition is_digit :: "nat \<Rightarrow> char \<Rightarrow> bool" where
  "is_digit radix c = (case digit_val c of None \<Rightarrow> False | Some d \<Rightarrow> d < radix)"

text \<open>The value of a digit string in a radix, most significant digit first.\<close>

fun digits_val :: "nat \<Rightarrow> nat \<Rightarrow> string \<Rightarrow> nat" where
  "digits_val radix acc [] = acc"
| "digits_val radix acc (c # cs) =
     digits_val radix (acc * radix + (case digit_val c of None \<Rightarrow> 0 | Some d \<Rightarrow> d)) cs"

text \<open>\<open>0b\<close>, \<open>0o\<close> and \<open>0x\<close> literals: the prefix, then at least one digit of the radix and
  nothing else.\<close>

definition parse_nondecimal :: "string \<Rightarrow> nat option" where
  "parse_nondecimal s =
     (case s of
        z # p # ds \<Rightarrow>
          (let radix = (if p = CHR ''x'' \<or> p = CHR ''X'' then 16
                        else if p = CHR ''o'' \<or> p = CHR ''O'' then 8
                        else if p = CHR ''b'' \<or> p = CHR ''B'' then 2 else 0 :: nat)
           in if z = CHR ''0'' \<and> radix \<noteq> 0 \<and> ds \<noteq> [] \<and> list_all (is_digit radix) ds
              then Some (digits_val radix 0 ds) else None)
      | _ \<Rightarrow> None)"

text \<open>The exponent part: nothing, or \<open>e\<close>/\<open>E\<close>, an optional sign and at least one digit.\<close>

definition parse_exponent :: "string \<Rightarrow> int option" where
  "parse_exponent s =
     (case s of
        [] \<Rightarrow> Some 0
      | c # r \<Rightarrow>
          if c = CHR ''e'' \<or> c = CHR ''E'' then
            (let (neg, ds) = (case r of
                                x # r' \<Rightarrow> if x = CHR ''-'' then (True, r')
                                          else if x = CHR ''+'' then (False, r') else (False, r)
                              | [] \<Rightarrow> (False, r))
             in if ds \<noteq> [] \<and> list_all (is_digit 10) ds
                then Some (if neg then - int (digits_val 10 0 ds) else int (digits_val 10 0 ds))
                else None)
          else None)"

definition scale10 :: "nat \<Rightarrow> int \<Rightarrow> rat" where
  "scale10 m e = (if 0 \<le> e then of_nat m * 10 ^ nat e else of_nat m / 10 ^ nat (- e))"

definition parse_unsigned_decimal :: "string \<Rightarrow> number" where
  "parse_unsigned_decimal s =
     (if s = ''Infinity'' then PInf
      else
        let ip = takeWhile (is_digit 10) s; r1 = dropWhile (is_digit 10) s in
        case r1 of
          c # r2 \<Rightarrow>
            if c = CHR ''.'' then
              (let fp = takeWhile (is_digit 10) r2; r3 = dropWhile (is_digit 10) r2 in
               if ip = [] \<and> fp = [] then NaN
               else case parse_exponent r3 of
                      None \<Rightarrow> NaN
                    | Some e \<Rightarrow>
                        double_round (scale10 (digits_val 10 0 (ip @ fp)) (e - int (length fp))))
            else if ip = [] then NaN
            else (case parse_exponent r1 of
                    None \<Rightarrow> NaN
                  | Some e \<Rightarrow> double_round (scale10 (digits_val 10 0 ip) e))
        | [] \<Rightarrow> if ip = [] then NaN else double_round (of_nat (digits_val 10 0 ip)))"

fun negate :: "number \<Rightarrow> number" where
  "negate NaN = NaN"
| "negate PInf = NInf"
| "negate NInf = PInf"
| "negate (Fin q) = Fin (- q)"

definition Number :: "string \<Rightarrow> number" where
  "Number s =
     (let t = trim s in
      if t = [] then Fin 0
      else case parse_nondecimal t of
             Some n \<Rightarrow> double_round (of_nat n)
           | None \<Rightarrow>
               (case t of
                  c # r \<Rightarrow> if c = CHR ''-'' then negate (parse_unsigned_decimal r)
                           else if c = CHR ''+'' then parse_unsigned_decimal r
                           else parse_unsigned_decimal t
                | [] \<Rightarrow> Fin 0))"

section \<open>Data\<close>

datatype Unit = seconds | reps

text \<open>The optional \<open>instructions\<close> text of an exercise is display-only and is left out.\<close>

record Exercise =
  description :: string
  duration :: number
  unit :: Unit

record Block =
  name :: string
  rounds :: number
  exercises :: "Exercise list"

record Workout =
  title :: string
  categories :: "Block list"

text \<open>The seed data \<open>INITIAL_LIBRARY\<close>.\<close>

definition ex :: "string \<Rightarrow> rat \<Rightarrow> Unit \<Rightarrow> Exercise" where
  "ex d n u = \<lparr>description = d, duration = Fin n, unit = u\<rparr>"

definition INITIAL_LIBRARY :: "Workout list" where
  "INITIAL_LIBRARY =
   [\<lparr>title = ''Arm & Ab Workout'',
     categories =
      [\<lparr>name = ''Warm-Up'', rounds = Fin 1, exercises =
         [ex ''Arm Circles'' 30 seconds, ex ''Cat-Cow'' 6 reps, ex ''Torso Twists'' 20 reps]\<rparr>,
       \<lparr>name = ''Core (Mat)'', rounds = Fin 3, exercises =
         [ex ''Plank Hold'' 45 seconds, ex ''Bicycle Crunches'' 20 reps,
          ex ''Russian Twists'' 20 reps]\<rparr>,
       \<lparr>name = ''Upper Body (Weights)'', rounds = Fin 3, exercises =
         [ex ''Dumbbell Curl to Press'' 12 reps, ex ''Bench Dips'' 12 reps,
          ex ''Hammer Curls'' 12 reps]\<rparr>,
       \<lparr>name = ''Cooldown'', rounds = Fin 1, exercises =
         [ex ''Seated Forward Fold'' 45 seconds, ex ''Cross-Body Shoulder'' 30 seconds,
          ex ''Child's Pose'' 45 seconds]\<rparr>]\<rparr>,
    \<lparr>title = ''Leg & Glute Workout'',
     categories =
      [\<lparr>name = ''Warm-Up'', rounds = Fin 1, exercises =
         [ex ''Bodyweight Squats'' 12 reps, ex ''Hip Circles'' 30 seconds,
          ex ''Leg Swings'' 10 reps]\<rparr>,
       \<lparr>name = ''Glute Activation (Mat)'', rounds = Fin 3, exercises =
         [ex ''Glute Bridge'' 15 reps, ex ''Clamshells'' 15 reps,
          ex ''Side Plank Hip Lifts'' 12 reps]\<rparr>,
       \<lparr>name = ''Leg Strength (Weights)'', rounds = Fin 3, exercises =
         [ex ''Bulgarian Split Squat'' 12 reps, ex ''Step Ups'' 12 reps,
          ex ''Romanian Deadlift'' 12 reps, ex ''Squat Jumps'' 15 reps]\<rparr>,
       \<lparr>name = ''Cooldown'', rounds = Fin 1, exercises =
         [ex ''Standing Quad'' 30 seconds, ex ''Figure-4'' 30 seconds,
          ex ''Seated Hamstring'' 45 seconds]\<rparr>]\<rparr>]"

section \<open>Scheduler\<close>

text \<open>A step: the block index, the round (a value of the loop counter) and the exercise
  index.\<close>

record Step =
  bi :: nat
  ri :: nat
  ei :: nat

text \<open>The exceptions that the modelled code can throw. \<open>NoSuchInput\<close> is not an exception: it
  marks an event on an input element that is not rendered.\<close>

datatype error = TypeError | RangeError | SyntaxError | SecurityError | NoSuchInput

text \<open>
  \<open>steps.push(s)\<close>: an array holds at most \<open>2^32 - 1\<close> elements, and a \<open>push\<close> beyond that
  throws a \<open>RangeError\<close>. This limit of the language is the only one represented: an engine that
  runs out of memory earlier stops the program earlier.
\<close>

definition array_limit :: nat where
  "array_limit = 2 ^ 32 - 1"

definition push :: "Step list \<Rightarrow> Step \<Rightarrow> error + Step list" where
  "push steps s = (if length steps < array_limit then Inr (steps @ [s]) else Inl RangeError)"

text \<open>The inner \<open>forEach((_, ei) => steps.push({bi, ri: r, ei}))\<close> over the exercises of a
  block: one \<open>push\<close> per exercise index, in list order.\<close>

fun forEach_exercises :: "nat \<Rightarrow> nat \<Rightarrow> nat list \<Rightarrow> Step list \<Rightarrow> error + Step list" where
  "forEach_exercises b r [] steps = Inr steps"
| "forEach_exercises b r (e # es) steps =
     (case push steps \<lparr>bi = b, ri = r, ei = e\<rparr> of
        Inl x \<Rightarrow> Inl x
      | Inr steps' \<Rightarrow> forEach_exercises b r es steps')"

text \<open>\<open>const rounds = Math.max(1, Number(blk.rounds || 1))\<close>; \<open>Number\<close> of a number is that
  number. An absent round count (\<open>undefined\<close>) takes the same branch of \<open>||\<close> as \<open>NaN\<close> does.\<close>

definition block_rounds :: "Block \<Rightarrow> number" where
  "block_rounds blk = Math_max (Fin 1) (or_num (rounds blk) (Fin 1))"

text \<open>
  The loop counter \<open>r\<close> is a double holding an integer. Up to \<open>2^53\<close> the increment \<open>r++\<close> is
  exact; at \<open>2^53\<close> the sum \<open>2^53 + 1\<close> is rounded back to \<open>2^53\<close>, so the counter stays there.
\<close>

definition counter_limit :: nat where
  "counter_limit = 2 ^ 53"

definition incr :: "nat \<Rightarrow> nat" where
  "incr r = (if r < counter_limit then r + 1 else r)"

text \<open>
  The loop \<open>for (let r = 1; r <= rounds; r++)\<close>. With a bound of \<open>2^53\<close> or more (\<open>Infinity\<close>
  included) the condition never fails, and the loop ends only by an exception of \<open>push\<close>; so
  the loop is a partial function, and \<open>None\<close> stands for not returning.
\<close>

partial_function (option) for_rounds ::
  "nat \<Rightarrow> Exercise list \<Rightarrow> number \<Rightarrow> nat \<Rightarrow> Step list \<Rightarrow> (error + Step list) option" where
  "for_rounds b exs bound r steps =
     (if num_le (Fin (of_nat r)) bound
      then (case forEach_exercises b r [0..<length exs] steps of
              Inl x \<Rightarrow> Some (Inl x)
            | Inr steps' \<Rightarrow> for_rounds b exs bound (incr r) steps')
      else Some (Inr steps))"

declare for_rounds.simps [code]

text \<open>The outer \<open>forEach((blk, bi) => ...)\<close> over the blocks, threading the array \<open>steps\<close>.
  \<open>blk.exercises || []\<close> is the exercise list.\<close>

fun forEach_blocks :: "Block list \<Rightarrow> nat \<Rightarrow> Step list \<Rightarrow> (error + Step list) option" where
  "forEach_blocks [] b steps = Some (Inr steps)"
| "forEach_blocks (blk # blks) b steps =
     (case for_rounds b (exercises blk) (block_rounds blk) 1 steps of
        None \<Rightarrow> None
      | Some (Inl x) \<Rightarrow> Some (Inl x)
      | Some (Inr steps') \<Rightarrow> forEach_blocks blks (b + 1) steps')"

text \<open>\<open>buildSchedule\<close> has three outcomes: it does not return (\<open>None\<close>), it throws
  (\<open>Some (Inl e)\<close>), or it returns the array of steps (\<open>Some (Inr steps)\<close>).\<close>

definition buildSchedule :: "Block list \<Rightarrow> (error + Step list) option" where
  "buildSchedule blocks = forEach_blocks blocks 0 []"

section \<open>The run-state controller of \<open>App\<close>\<close>

datatype Mode = PLAN | RUN

text \<open>The state of \<open>App\<close> that the handlers \<open>startRun\<close>, \<open>next\<close>, \<open>prev\<close> and the round-count
  input read and write.\<close>

record App =
  library :: "Workout list"
  currentIndex :: nat
  mode :: Mode
  schedule :: "Step list"
  idx :: nat

text \<open>\<open>const workout = library[currentIndex] || INITIAL_LIBRARY[0]\<close> and
  \<open>const blocks = workout.categories || []\<close>.\<close>

definition workout :: "App \<Rightarrow> Workout" where
  "workout s =
     (if currentIndex s < length (library s) then library s ! currentIndex s
      else INITIAL_LIBRARY ! 0)"

definition blocks :: "App \<Rightarrow> Block list" where
  "blocks s = categories (workout s)"

text \<open>\<open>cur\<close>, \<open>currentBlock\<close> and \<open>current\<close>: each read is \<open>undefined\<close> (here \<open>None\<close>) when the
  index is out of range, and the guards pass \<open>undefined\<close> on.\<close>

definition cur :: "App \<Rightarrow> Step option" where
  "cur s = (if idx s < length (schedule s) then Some (schedule s ! idx s) else None)"

definition currentBlock :: "App \<Rightarrow> Block option" where
  "currentBlock s =
     (case cur s of
        None \<Rightarrow> None
      | Some c \<Rightarrow> if bi c < length (blocks s) then Some (blocks s ! bi c) else None)"

definition current :: "App \<Rightarrow> Exercise option" where
  "current s =
     (case cur s of
        None \<Rightarrow> None
      | Some c \<Rightarrow>
          (case currentBlock s of
             None \<Rightarrow> None
           | Some blk \<Rightarrow>
               if ei c < length (exercises blk) then Some (exercises blk ! ei c) else None))"

text \<open>The run card is rendered under \<open>mode === 'RUN' && current\<close>.\<close>

definition runCardShown :: "App \<Rightarrow> bool" where
  "runCardShown s = (mode s = RUN \<and> current s \<noteq> None)"

text \<open>\<open>startRun\<close> calls \<open>buildSchedule\<close> first: when that does not return or throws, so does
  \<open>startRun\<close>, and no state is set.\<close>

definition startRun :: "App \<Rightarrow> (error + App) option" where
  "startRun s =
     (case buildSchedule (blocks s) of
        None \<Rightarrow> None
      | Some (Inl e) \<Rightarrow> Some (Inl e)
      | Some (Inr sch) \<Rightarrow> Some (Inr (s\<lparr>schedule := sch, idx := 0, mode := RUN\<rparr>)))"

text \<open>The handler \<open>next\<close> of the source.\<close>

definition nextStep :: "App \<Rightarrow> App" where
  "nextStep s =
     (if idx s + 1 < length (schedule s) then s\<lparr>idx := idx s + 1\<rparr> else s\<lparr>mode := PLAN\<rparr>)"

definition prev :: "App \<Rightarrow> App" where
  "prev s = (if idx s > 0 then s\<lparr>idx := idx s - 1\<rparr> else s)"

text \<open>
  The \<open>onChange\<close> handler of the round-count input of block \<open>b\<close>, called with the text of the
  input. The spread \<open>[...next[currentIndex].categories]\<close> throws a \<open>TypeError\<close> when
  \<open>library[currentIndex]\<close> does not exist. An input exists only for the indices of \<open>blocks\<close>.
\<close>

definition rounds_onChange :: "App \<Rightarrow> nat \<Rightarrow> string \<Rightarrow> error + App" where
  "rounds_onChange s b v =
     (if length (blocks s) \<le> b then Inl NoSuchInput
      else if length (library s) \<le> currentIndex s then Inl TypeError
      else
        let w = library s ! currentIndex s;
            blk = categories w ! b;
            blk' = blk\<lparr>rounds := Math_max (Fin 1) (or_num (Number v) (Fin 1))\<rparr>
        in Inr (s\<lparr>library := (library s)[currentIndex s :=
                    w\<lparr>categories := (categories w)[b := blk']\<rparr>]\<rparr>))"

section \<open>Persistent state\<close>

text \<open>
  The initialiser of \<open>useLocalStorage\<close>. The environment is \<open>None\<close> when there is no \<open>window\<close>;
  otherwise the store either throws on access or holds the items. \<open>JSON.parse\<close> is a parameter:
  \<open>None\<close> stands for a thrown \<open>SyntaxError\<close>. \<open>try_body\<close> is the body of the \<open>try\<close> block, with
  an exception as \<open>Inl\<close>; the \<open>catch\<close> clause returns \<open>initialValue\<close>.
\<close>

datatype localStorage = Throws | Items "string \<Rightarrow> string option"

definition try_body ::
  "(string \<Rightarrow> 'a option) \<Rightarrow> localStorage option \<Rightarrow> string \<Rightarrow> 'a \<Rightarrow> error + 'a" where
  "try_body parse window key initialValue =
     (case window of
        None \<Rightarrow> Inr initialValue
      | Some Throws \<Rightarrow> Inl SecurityError
      | Some (Items getItem) \<Rightarrow>
          (case getItem key of
             None \<Rightarrow> Inr initialValue
           | Some raw \<Rightarrow> (case parse raw of None \<Rightarrow> Inl SyntaxError | Some v \<Rightarrow> Inr v)))"

definition useLocalStorage_init ::
  "(string \<Rightarrow> 'a option) \<Rightarrow> localStorage option \<Rightarrow> string \<Rightarrow> 'a \<Rightarrow> 'a" where
  "useLocalStorage_init parse window key initialValue =
     (case try_body parse window key initialValue of
        Inl e \<Rightarrow> initialValue
      | Inr v \<Rightarrow> v)"

section \<open>Countdown timer\<close>

text \<open>
  One mounted \<open>BigTimer\<close> with its \<open>useCountdown\<close> hook, and the state of \<open>App\<close> it is wired
  to. \<open>ms\<close> and \<open>running\<close> are the props (\<open>running\<close> is a state of \<open>App\<close>), \<open>remaining\<close> is the
  hook's state, \<open>rafStart\<close> is the \<open>start\<close> timestamp captured by the pending animation-frame
  callback (\<open>None\<close> when no callback is pending), \<open>timerDone\<close> is the flag of \<open>App\<close> that
  \<open>onComplete\<close> sets, and \<open>completions\<close> counts the calls of \<open>onComplete\<close>.
\<close>

record Countdown =
  ms :: number
  running :: bool
  remaining :: number
  rafStart :: "number option"
  timerDone :: bool
  completions :: nat

text \<open>A timestamp (\<open>performance.now()\<close>, the argument of a frame callback) is a double: the
  rational given for it is rounded as a numeric literal is.\<close>

definition timestamp :: "rat \<Rightarrow> number" where
  "timestamp t = double_round t"

text \<open>\<open>onComplete\<close> is \<open>()=>setTimerDone(true)\<close>.\<close>

definition onComplete :: "Countdown \<Rightarrow> Countdown" where
  "onComplete s = s\<lparr>timerDone := True, completions := completions s + 1\<rparr>"

text \<open>
  The effect \<open>useEffect(()=>{ if (remaining===0) onComplete?.(); }, [remaining, onComplete])\<close>,
  which runs after a render of \<open>BigTimer\<close> in which \<open>remaining\<close> or \<open>onComplete\<close> changed.
  \<open>onComplete\<close> is a new closure in every render of \<open>App\<close>. So when the call of \<open>onComplete\<close>
  changes \<open>timerDone\<close>, \<open>App\<close> renders again, \<open>BigTimer\<close> receives a new \<open>onComplete\<close>, and the
  effect runs once more with \<open>remaining\<close> still \<open>0\<close>; that second call sets \<open>timerDone\<close> to the
  value it has, and a state update that changes nothing renders nothing.
\<close>

definition completion_effect :: "Countdown \<Rightarrow> Countdown" where
  "completion_effect s =
     (if strict_eq (remaining s) (Fin 0)
      then (if timerDone s then onComplete s else onComplete (onComplete s))
      else s)"

text \<open>
  The mounting of \<open>BigTimer\<close> with the props \<open>ms\<close> and \<open>running\<close>, its effects running at time
  \<open>now\<close>, while the flag of \<open>App\<close> is \<open>done\<close>: \<open>useState(ms)\<close> gives \<open>remaining\<close>; the effect on
  \<open>[ms]\<close> sets \<open>remaining\<close> to \<open>ms\<close>, which changes nothing; the countdown effect takes
  \<open>start = performance.now()\<close> and requests a frame when \<open>running\<close> holds; the completion effect
  runs. \<open>App\<close> starts with \<open>running\<close> and \<open>timerDone\<close> false, so the first timer of a session is
  \<open>mount ms False False now\<close>. The effect of \<open>App\<close> on \<open>[idx, current?.unit, current?.duration]\<close>,
  which sets \<open>running\<close> and \<open>timerDone\<close> to false and changes the key of \<open>BigTimer\<close>, is outside
  this model of one mounted timer.
\<close>

definition mount :: "number \<Rightarrow> bool \<Rightarrow> bool \<Rightarrow> rat \<Rightarrow> Countdown" where
  "mount m run done now =
     completion_effect
       \<lparr>ms = m, running = run, remaining = m,
        rafStart = (if run then Some (timestamp now) else None),
        timerDone = done, completions = 0\<rparr>"

text \<open>
  A click on the toggle button, the effects running at time \<open>now\<close>: \<open>setRunning(r=>!r)\<close> flips
  \<open>running\<close> and \<open>App\<close> renders again. The cleanup of the countdown effect cancels the pending
  callback; the effect then either stops (\<open>!running\<close>) or takes \<open>start = performance.now()\<close> and
  requests a frame. The completion effect runs because \<open>onComplete\<close> is a new closure.
\<close>

definition toggle :: "rat \<Rightarrow> Countdown \<Rightarrow> Countdown" where
  "toggle now s =
     completion_effect
       (s\<lparr>running := \<not> running s,
          rafStart := (if \<not> running s then Some (timestamp now) else None)\<rparr>)"

text \<open>
  An animation frame with timestamp \<open>t\<close>: the pending \<open>loop\<close>, if any, computes
  \<open>elapsed = t - start\<close> and \<open>next = Math.max(0, ms - elapsed)\<close>, calls \<open>setRemaining(next)\<close> and
  requests another frame only when \<open>next > 0\<close>. \<open>BigTimer\<close> renders again when \<open>remaining\<close>
  changed, and then the completion effect runs.
\<close>

definition frame :: "rat \<Rightarrow> Countdown \<Rightarrow> Countdown" where
  "frame t s =
     (case rafStart s of
        None \<Rightarrow> s
      | Some start \<Rightarrow>
          let elapsed = num_sub (timestamp t) start;
              nxt = Math_max (Fin 0) (num_sub (ms s) elapsed);
              s' = s\<lparr>remaining := nxt,
                     rafStart := (if num_gt nxt (Fin 0) then Some start else None)\<rparr>
          in if same_value (remaining s) nxt then s' else completion_effect s')"

datatype TimerEvent = Toggle rat | Frame rat

fun timer_event :: "TimerEvent \<Rightarrow> Countdown \<Rightarrow> Countdown" where
  "timer_event (Toggle now) s = toggle now s"
| "timer_event (Frame t) s = frame t s"

fun run_events :: "TimerEvent list \<Rightarrow> Countdown \<Rightarrow> Countdown" where
  "run_events [] s = s"
| "run_events (e # es) s = run_events es (timer_event e s)"

section \<open>Auxiliary definitions for the proofs\<close>

text \<open>The steps of one round of a block, in exercise-list order.\<close>

definition round_steps :: "nat \<Rightarrow> nat \<Rightarrow> Exercise list \<Rightarrow> Step list" where
  "round_steps b r exs = map (\<lambda>e. \<lparr>bi = b, ri = r, ei = e\<rparr>) [0..<length exs]"

text \<open>The number of iterations of the round loop for a bound below \<open>2^53\<close>.\<close>

definition round_count :: "number \<Rightarrow> nat" where
  "round_count bound = (case bound of Fin q \<Rightarrow> nat \<lfloor>q\<rfloor> | _ \<Rightarrow> 0)"

text \<open>The steps of \<open>k\<close> consecutive rounds of one block, starting with round \<open>r\<close>.\<close>

fun steps_from :: "nat \<Rightarrow> Exercise list \<Rightarrow> nat \<Rightarrow> nat \<Rightarrow> Step list" where
  "steps_from b exs r 0 = []"
| "steps_from b exs r (Suc k) = round_steps b r exs @ steps_from b exs (Suc r) k"

text \<open>The steps of a list of blocks whose first block has index \<open>b\<close>, and their number.\<close>

fun all_from :: "nat \<Rightarrow> Block list \<Rightarrow> Step list" where
  "all_from b [] = []"
| "all_from b (blk # blks) =
     steps_from b (exercises blk) 1 (round_count (block_rounds blk)) @ all_from (Suc b) blks"

definition total_steps :: "Block list \<Rightarrow> nat" where
  "total_steps bs = (\<Sum>blk\<leftarrow>bs. round_count (block_rounds blk) * length (exercises blk))"

text \<open>The order of the schedule: by block, then by round, then by exercise.\<close>

definition step_before :: "Step \<Rightarrow> Step \<Rightarrow> bool" where
  "step_before s t \<longleftrightarrow>
     bi s < bi t \<or> (bi s = bi t \<and> (ri s < ri t \<or> (ri s = ri t \<and> ei s < ei t)))"

text \<open>
  The specification's round count, \<open>max(1, intOrDefault(rounds, 1))\<close>, in the specification's
  words: the integer part of the round count, and the default when the value has no integer part
  or that part is zero.
\<close>

definition spec_intOrDefault :: "number \<Rightarrow> int \<Rightarrow> int" where
  "spec_intOrDefault x d =
     (case x of
        Fin q \<Rightarrow> (let i = (if 0 \<le> q then \<lfloor>q\<rfloor> else \<lceil>q\<rceil>) in if i = 0 then d else i)
      | _ \<Rightarrow> d)"

definition spec_length :: "Block list \<Rightarrow> nat" where
  "spec_length bs =
     (\<Sum>blk\<leftarrow>bs. nat (max 1 (spec_intOrDefault (rounds blk) 1)) * length (exercises blk))"

text \<open>Whether a number is an integer (\<open>Number.isInteger\<close>).\<close>

definition is_integer :: "number \<Rightarrow> bool" where
  "is_integer x = (case x of Fin q \<Rightarrow> of_int \<lfloor>q\<rfloor> = q | _ \<Rightarrow> False)"

section \<open>Concrete routines for the examples\<close>

text \<open>The routine of the specification's concrete scenario: one block with one round of one
  exercise, then one block with two rounds of two exercises, and its schedule.\<close>

definition scenario_blocks :: "Block list" where
  "scenario_blocks =
     [\<lparr>name = ''A'', rounds = Fin 1, exercises = [ex ''e1'' 30 seconds]\<rparr>,
      \<lparr>name = ''B'', rounds = Fin 2, exercises = [ex ''e2'' 12 reps, ex ''e3'' 10 reps]\<rparr>]"

definition scenario_schedule :: "Step list" where
  "scenario_schedule =
     [\<lparr>bi = 0, ri = 1, ei = 0\<rparr>, \<lparr>bi = 1, ri = 1, ei = 0\<rparr>, \<lparr>bi = 1, ri = 1, ei = 1\<rparr>,
      \<lparr>bi = 1, ri = 2, ei = 0\<rparr>, \<lparr>bi = 1, ri = 2, ei = 1\<rparr>]"

definition app_with :: "Block list \<Rightarrow> App" where
  "app_with bs =
     \<lparr>library = [\<lparr>title = ''Routine'', categories = bs\<rparr>], currentIndex = 0, mode = PLAN,
      schedule = [], idx = 0\<rparr>"

section \<open>Facts about rounding\<close>

lemma bit_length_0: "bit_length 0 = 0"
  by (simp add: bit_length.simps)

lemma bit_length_pos: "0 < n \<Longrightarrow> 0 < bit_length n"
  by (subst bit_length.simps) simp

lemma bit_length_le: "n < 2 ^ k \<Longrightarrow> bit_length n \<le> k"
proof (induction k arbitrary: n)
  case 0
  then show ?case by (simp add: bit_length_0)
next
  case (Suc k)
  show ?case
  proof (cases "n = 0")
    case True
    then show ?thesis by (simp add: bit_length_0)
  next
    case False
    from Suc.prems have "n div 2 < 2 ^ k" by simp
    from Suc.IH[OF this] False show ?thesis
      by (subst bit_length.simps) simp
  qed
qed

lemma round_half_even_int: "round_half_even (of_int m) = m"
  by (simp add: round_half_even_def)

text \<open>The integers below \<open>2^53\<close> are doubles.\<close>

lemma double_round_nat:
  assumes "n < 2 ^ 53"
  shows "double_round (of_nat n) = Fin (of_nat n)"
proof (cases "n = 0")
  case True
  then show ?thesis by (simp add: double_round_def)
next
  case False
  define e where "e = int (bit_length n) - 1"
  from False have "0 < bit_length n" by (simp add: bit_length_pos)
  moreover from assms have "bit_length n \<le> 53" by (rule bit_length_le)
  ultimately have e: "0 \<le> e" "e \<le> 52" by (simp_all add: e_def)
  from False have il: "ilog2 (of_nat n) = e"
    by (simp add: ilog2_def e_def)
  define j where "j = nat (52 - e)"
  have ulp: "pow2 (e - 52) = 1 / 2 ^ j"
    using e by (auto simp: pow2_def j_def)
  have "(of_nat n :: rat) / (1 / 2 ^ j) = of_int (int n * 2 ^ j)"
    by simp
  then have r: "round_half_even (of_nat n / (1 / 2 ^ j)) = int n * 2 ^ j"
    using round_half_even_int[of "int n * 2 ^ j"] by simp
  have y: "of_int (int n * 2 ^ j) * (1 / 2 ^ j) = (of_nat n :: rat)"
    by simp
  have "(of_nat n :: rat) < 2 ^ 53" using assms
    by (metis of_nat_less_iff of_nat_numeral of_nat_power)
  also have "\<dots> \<le> (2::rat) ^ 1024" by (rule power_increasing) simp_all
  finally have small: "\<not> pow2 1024 \<le> (of_nat n :: rat)"
    by (simp add: pow2_def)
  have m: "max e (- 1022) = e" using e by simp
  from False have "double_round (of_nat n) =
      (if pow2 1024 \<le> of_int (round_half_even (of_nat n /
             pow2 (max (ilog2 (of_nat n)) (- 1022) - 52))) *
           pow2 (max (ilog2 (of_nat n)) (- 1022) - 52)
       then PInf
       else Fin (of_int (round_half_even (of_nat n /
             pow2 (max (ilog2 (of_nat n)) (- 1022) - 52))) *
           pow2 (max (ilog2 (of_nat n)) (- 1022) - 52)))"
    by (simp add: double_round_def Let_def)
  also have "\<dots> = Fin (of_nat n)"
    unfolding il m ulp r y using small by simp
  finally show ?thesis .
qed

lemma double_round_numeral:
  "numeral k < (2::nat) ^ 53 \<Longrightarrow> double_round (numeral k) = Fin (numeral k)"
  using double_round_nat[of "numeral k"] by simp

lemma double_round_0: "double_round 0 = Fin 0"
  by (simp add: double_round_def)

lemma double_round_1: "double_round 1 = Fin 1"
  using double_round_nat[of 1] by simp

lemma double_round_neg: "double_round (- x) = (case double_round x of Fin y \<Rightarrow> Fin (- y) | PInf \<Rightarrow> NInf | NInf \<Rightarrow> PInf | NaN \<Rightarrow> NaN)"
  by (auto simp: double_round_def Let_def)

lemma floor_five_halves: "\<lfloor>5 / 2 :: rat\<rfloor> = 2"
  by (rule floor_unique) simp_all

lemma bit_length_2: "bit_length 2 = 2"
  by (simp add: bit_length.simps)

lemma double_round_five_halves: "double_round (5 / 2) = Fin (5 / 2)"
proof -
  have "ilog2 (5 / 2) = 1"
    by (simp add: ilog2_def floor_five_halves bit_length_2)
  then show ?thesis
    by (simp add: double_round_def Let_def pow2_def round_half_even_def)
qed

lemma bl54: "bit_length (2 ^ 53 + 1) = 54"
  by (simp add: bit_length.simps)

lemma round_half_even_half:
  "round_half_even (of_int m + 1 / 2) = (if even m then m else m + 1)"
proof -
  have "\<lfloor>(of_int m :: rat) + 1 / 2\<rfloor> = m"
    by (rule floor_unique) simp_all
  then show ?thesis by (simp add: round_half_even_def)
qed

lemma double_round_2_53_1: "double_round (2 ^ 53 + 1) = Fin (2 ^ 53)"
proof -
  have "\<lfloor>(2::rat) ^ 53 + 1\<rfloor> = 2 ^ 53 + 1" by simp
  then have il: "ilog2 (2 ^ 53 + 1) = 53"
    using bl54 by (simp add: ilog2_def)
  have h: "((2::rat) ^ 53 + 1) / 2 = of_int (2 ^ 52) + 1 / 2" by simp
  have "round_half_even (((2::rat) ^ 53 + 1) / 2) = 2 ^ 52"
    unfolding h round_half_even_half by simp
  then show ?thesis
    using il by (simp add: double_round_def Let_def pow2_def)
qed

lemma round_half_even_near:
  assumes "of_int m - 1 / 2 < y" "y < of_int m + 1 / 2"
  shows "round_half_even y = m"
proof (cases "of_int m \<le> y")
  case True
  with assms have f: "\<lfloor>y\<rfloor> = m" by (intro floor_unique) simp_all
  from assms have "y - of_int m < 1 / 2" by simp
  with f show ?thesis by (simp add: round_half_even_def)
next
  case False
  with assms have f: "\<lfloor>y\<rfloor> = m - 1" by (intro floor_unique) simp_all
  from assms have "1 / 2 < y - of_int (m - 1)" by simp
  with f show ?thesis by (simp add: round_half_even_def Let_def)
qed

lemma double_round_pos:
  assumes "0 < x" "ilog2 x = e" "- 1022 \<le> e"
    and "round_half_even (x / pow2 (e - 52)) = m"
    and "of_int m * pow2 (e - 52) < pow2 1024"
  shows "double_round x = Fin (of_int m * pow2 (e - 52))"
proof -
  from assms(3) have "max e (- 1022) = e" by simp
  with assms show ?thesis
    by (simp add: double_round_def Let_def)
qed

lemma bit_length_lower: "0 < n \<Longrightarrow> 2 ^ (bit_length n - 1) \<le> n"
proof (induction n rule: bit_length.induct)
  case (1 n)
  show ?case
  proof (cases "n div 2 = 0")
    case True
    with 1 have "n = 1" by (simp add: div_eq_0_iff) 
    then show ?thesis by (simp add: bit_length.simps)
  next
    case False
    then have pos: "0 < n div 2" by simp
    with 1 have IH: "2 ^ (bit_length (n div 2) - 1) \<le> n div 2" by simp
    from pos have bp: "0 < bit_length (n div 2)" by (rule bit_length_pos)
    have "bit_length n = Suc (bit_length (n div 2))"
      using 1(2) by (subst bit_length.simps) simp
    then have "2 ^ (bit_length n - 1) = 2 * 2 ^ (bit_length (n div 2) - 1)"
      using bp by (cases "bit_length (n div 2)") simp_all
    also have "\<dots> \<le> 2 * (n div 2)" using IH by simp
    also have "\<dots> \<le> n" by simp
    finally show ?thesis .
  qed
qed

lemma bit_length_upper: "bit_length n \<le> k \<Longrightarrow> n < 2 ^ k"
proof (induction k arbitrary: n)
  case 0
  then have "n = 0" using bit_length_pos[of n] by (cases "n = 0") simp_all
  then show ?case by simp
next
  case (Suc k)
  show ?case
  proof (cases "n = 0")
    case True
    then show ?thesis by simp
  next
    case False
    then have "bit_length n = Suc (bit_length (n div 2))"
      by (subst bit_length.simps) simp
    with Suc.prems have "bit_length (n div 2) \<le> k" by simp
    from Suc.IH[OF this] show ?thesis by simp
  qed
qed

lemma bit_length_ge: "2 ^ k \<le> n \<Longrightarrow> k < bit_length n"
  using bit_length_upper[of n k] by (cases "k < bit_length n") simp_all

lemma round_half_even_ge: "of_int m \<le> y \<Longrightarrow> m \<le> round_half_even y"
proof -
  assume "of_int m \<le> y"
  then have "m \<le> \<lfloor>y\<rfloor>" by (simp add: le_floor_iff)
  moreover have "\<lfloor>y\<rfloor> \<le> round_half_even y" by (simp add: round_half_even_def Let_def)
  ultimately show ?thesis by simp
qed

text \<open>Overflow: a value of \<open>2^1024\<close> or more rounds to \<open>Infinity\<close>.\<close>

lemma double_round_overflow:
  assumes "2 ^ 1024 \<le> x"
  shows "double_round x = PInf"
proof -
  define n where "n = nat \<lfloor>x\<rfloor>"
  define e where "e = bit_length n - 1"
  have x1: "1 \<le> x" and xpos: "0 < x"
    using assms by (meson one_le_power one_le_numeral order_trans zero_less_one less_le_trans)+
  have "(2::int) ^ 1024 \<le> \<lfloor>x\<rfloor>" using assms by (simp add: le_floor_iff)
  then have n: "2 ^ 1024 \<le> n" unfolding n_def
    by (metis nat_mono nat_numeral nat_power_eq zero_le_numeral)
  then have "1024 < bit_length n" by (rule bit_length_ge)
  then have e: "1024 \<le> e" by (simp add: e_def)
  have npos: "0 < n" using n by (metis gr0I not_one_le_zero one_le_numeral one_le_power order_trans)
  have "2 ^ e \<le> n" unfolding e_def using npos by (rule bit_length_lower)
  then have "(2::rat) ^ e \<le> of_nat n"
    by (metis of_nat_le_iff of_nat_numeral of_nat_power)
  also have "\<dots> \<le> x" unfolding n_def using xpos by (simp add: of_nat_nat) 
  finally have le: "(2::rat) ^ e \<le> x" .
  have il: "ilog2 x = int e"
    using x1 e by (simp add: ilog2_def n_def[symmetric] e_def)
  have ulp: "pow2 (int e - 52) = 2 ^ (e - 52)"
    using e by (simp add: pow2_def nat_diff_distrib')
  from e have "e = 52 + (e - 52)" by simp
  then have split: "(2::rat) ^ e = 2 ^ 52 * 2 ^ (e - 52)"
    by (metis power_add)
  have "(2::rat) ^ 52 \<le> x / 2 ^ (e - 52)"
    using le unfolding split by (simp add: pos_le_divide_eq)
  then have "of_int (2 ^ 52) \<le> x / 2 ^ (e - 52)" by simp
  then have "2 ^ 52 \<le> round_half_even (x / 2 ^ (e - 52))" by (rule round_half_even_ge)
  then have "(2::rat) ^ 52 \<le> of_int (round_half_even (x / 2 ^ (e - 52)))"
    by (metis of_int_le_iff of_int_numeral of_int_power)
  then have "(2::rat) ^ 52 * 2 ^ (e - 52) \<le> of_int (round_half_even (x / 2 ^ (e - 52))) * 2 ^ (e - 52)"
    by (simp add: mult_right_mono)
  then have "(2::rat) ^ e \<le> of_int (round_half_even (x / 2 ^ (e - 52))) * 2 ^ (e - 52)"
    unfolding split .
  moreover have "(2::rat) ^ 1024 \<le> 2 ^ e" using e by (intro power_increasing) simp_all
  ultimately have big: "pow2 1024 \<le> of_int (round_half_even (x / 2 ^ (e - 52))) * 2 ^ (e - 52)"
    by (simp add: pow2_def)
  have m: "max (int e) (- 1022) = int e" by simp
  from xpos have "double_round x =
      (if pow2 1024 \<le> of_int (round_half_even (x / pow2 (max (ilog2 x) (- 1022) - 52))) *
           pow2 (max (ilog2 x) (- 1022) - 52)
       then PInf
       else Fin (of_int (round_half_even (x / pow2 (max (ilog2 x) (- 1022) - 52))) *
           pow2 (max (ilog2 x) (- 1022) - 52)))"
    by (simp add: double_round_def Let_def)
  also have "\<dots> = PInf"
    unfolding il m ulp using big by simp
  finally show ?thesis .
qed

section \<open>The schedule in closed form\<close>

lemma of_nat_le_iff_floor:
  assumes "1 \<le> r"
  shows "(of_nat r \<le> (q::rat)) \<longleftrightarrow> r \<le> nat \<lfloor>q\<rfloor>"
proof -
  have "(of_nat r \<le> q) = (int r \<le> \<lfloor>q\<rfloor>)"
    by (simp add: le_floor_iff)
  also have "\<dots> = (r \<le> nat \<lfloor>q\<rfloor>)"
    using assms by linarith
  finally show ?thesis .
qed

lemma forEach_exercises_Inl:
  "forEach_exercises b r es steps = Inl x \<Longrightarrow> x = RangeError"
  by (induction es arbitrary: steps) (auto simp: push_def split: if_splits)

lemma forEach_exercises_eq:
  "length steps \<le> array_limit \<Longrightarrow>
   forEach_exercises b r es steps =
     (if length steps + length es \<le> array_limit
      then Inr (steps @ map (\<lambda>e. \<lparr>bi = b, ri = r, ei = e\<rparr>) es)
      else Inl RangeError)"
proof (induction es arbitrary: steps)
  case Nil
  then show ?case by simp
next
  case (Cons e es)
  show ?case
  proof (cases "length steps < array_limit")
    case True
    then have "length (steps @ [\<lparr>bi = b, ri = r, ei = e\<rparr>]) \<le> array_limit" by simp
    from Cons.IH[OF this] True show ?thesis by (simp add: push_def)
  next
    case False
    then show ?thesis by (simp add: push_def)
  qed
qed

lemma round_eq:
  "length steps \<le> array_limit \<Longrightarrow>
   forEach_exercises b r [0..<length exs] steps =
     (if length steps + length exs \<le> array_limit then Inr (steps @ round_steps b r exs)
      else Inl RangeError)"
  by (simp add: forEach_exercises_eq round_steps_def)

lemma length_round_steps: "length (round_steps b r exs) = length exs"
  by (simp add: round_steps_def)

lemma length_steps_from: "length (steps_from b exs r k) = k * length exs"
  by (induction k arbitrary: r) (simp_all add: length_round_steps)

lemma length_all_from: "length (all_from b bs) = total_steps bs"
  by (induction bs arbitrary: b) (simp_all add: length_steps_from total_steps_def)

text \<open>A bound below 2^53: the counter never stalls and the loop ends after the rounds up to
  the integer part of the bound, unless a push overflows the array.\<close>

lemma for_rounds_Fin:
  assumes "q < of_nat counter_limit"
  shows "1 \<le> r \<Longrightarrow> length steps \<le> array_limit \<Longrightarrow>
   for_rounds b exs (Fin q) r steps =
     Some (if length steps + (nat \<lfloor>q\<rfloor> + 1 - r) * length exs \<le> array_limit
           then Inr (steps @ steps_from b exs r (nat \<lfloor>q\<rfloor> + 1 - r))
           else Inl RangeError)"
proof (induction "nat \<lfloor>q\<rfloor> + 1 - r" arbitrary: r steps)
  case 0
  then have "\<not> r \<le> nat \<lfloor>q\<rfloor>" by simp
  with 0 show ?case
    by (subst for_rounds.simps) (simp add: of_nat_le_iff_floor)
next
  case (Suc k)
  then have le: "r \<le> nat \<lfloor>q\<rfloor>" by simp
  from assms have "\<lfloor>q\<rfloor> < int counter_limit" by (simp add: floor_less_iff)
  moreover have "0 < counter_limit" by (simp add: counter_limit_def)
  ultimately have "nat \<lfloor>q\<rfloor> < counter_limit" by linarith
  with le have inc: "incr r = r + 1" by (simp add: incr_def)
  have k: "k = nat \<lfloor>q\<rfloor> + 1 - (r + 1)" using Suc.hyps(2) by simp
  have cnt: "nat \<lfloor>q\<rfloor> + 1 - r = Suc k" using Suc.hyps(2) by simp
  have cond: "num_le (Fin (of_nat r)) (Fin q)"
    using le Suc.prems(1) by (simp add: of_nat_le_iff_floor)
  show ?case
  proof (cases "length steps + length exs \<le> array_limit")
    case True
    then have len: "length (steps @ round_steps b r exs) \<le> array_limit"
      by (simp add: length_round_steps)
    have "for_rounds b exs (Fin q) r steps
            = for_rounds b exs (Fin q) (r + 1) (steps @ round_steps b r exs)"
      using cond True Suc.prems(2) inc by (subst for_rounds.simps) (simp add: round_eq)
    also have "\<dots> = Some (if length (steps @ round_steps b r exs) + k * length exs \<le> array_limit
           then Inr ((steps @ round_steps b r exs) @ steps_from b exs (r + 1) k)
           else Inl RangeError)"
      using Suc.hyps(1)[OF k _ len] k by simp
    finally show ?thesis
      unfolding cnt by (simp add: length_round_steps add.assoc)
  next
    case False
    then have "\<not> length steps + Suc k * length exs \<le> array_limit" by simp
    moreover have "for_rounds b exs (Fin q) r steps = Some (Inl RangeError)"
      using cond False Suc.prems(2) by (subst for_rounds.simps) (simp add: round_eq)
    ultimately show ?thesis unfolding cnt by simp
  qed
qed

text \<open>A bound of at least 2^53: the counter stalls at 2^53 and the condition stays true, so
  the loop can only end by an overflowing push.\<close>

lemma num_le_big:
  assumes "num_le (Fin (of_nat counter_limit)) bound" "r \<le> counter_limit"
  shows "num_le (Fin (of_nat r)) bound"
proof (cases bound)
  case (Fin q)
  from assms(2) have "(of_nat r :: rat) \<le> of_nat counter_limit" by simp
  with assms(1) Fin show ?thesis by simp
qed (use assms in simp_all)

lemma incr_le: "r \<le> counter_limit \<Longrightarrow> incr r \<le> counter_limit"
  by (simp add: incr_def)

lemma for_rounds_big_Some:
  assumes "for_rounds b exs bound r steps = Some y"
  shows "r \<le> counter_limit \<and> num_le (Fin (of_nat counter_limit)) bound
           \<longrightarrow> exs \<noteq> [] \<and> y = Inl RangeError"
proof (rule for_rounds.raw_induct[where
      P = "\<lambda>b exs bound r steps y.
             r \<le> counter_limit \<and> num_le (Fin (of_nat counter_limit)) bound
               \<longrightarrow> exs \<noteq> [] \<and> y = Inl RangeError",
      OF _ assms])
  fix f b exs bound r steps y
  assume IH: "\<And>b exs bound r steps y. f b exs bound r steps = Some y \<Longrightarrow>
      r \<le> counter_limit \<and> num_le (Fin (of_nat counter_limit)) bound
        \<longrightarrow> exs \<noteq> [] \<and> y = Inl RangeError"
    and step: "(if num_le (Fin (of_nat r)) bound
      then case forEach_exercises b r [0..<length exs] steps of
           Inl x \<Rightarrow> Some (Inl x)
           | Inr steps' \<Rightarrow> f b exs bound (incr r) steps'
      else Some (Inr steps)) = Some y"
  show "r \<le> counter_limit \<and> num_le (Fin (of_nat counter_limit)) bound
          \<longrightarrow> exs \<noteq> [] \<and> y = Inl RangeError"
  proof
    assume a: "r \<le> counter_limit \<and> num_le (Fin (of_nat counter_limit)) bound"
    then have c: "num_le (Fin (of_nat r)) bound" by (simp add: num_le_big)
    show "exs \<noteq> [] \<and> y = Inl RangeError"
    proof (cases "forEach_exercises b r [0..<length exs] steps")
      case (Inl x)
      then have "x = RangeError" by (rule forEach_exercises_Inl)
      moreover from Inl have "exs \<noteq> []" by auto
      ultimately show ?thesis using step c Inl by simp
    next
      case (Inr steps')
      with step c have "f b exs bound (incr r) steps' = Some y" by simp
      from IH[OF this] a incr_le[of r] show ?thesis by blast
    qed
  qed
qed

lemma for_rounds_big_empty:
  "num_le (Fin (of_nat counter_limit)) bound \<Longrightarrow> r \<le> counter_limit \<Longrightarrow>
   for_rounds b [] bound r steps = None"
  using for_rounds_big_Some[of b "[]" bound r steps]
  by (cases "for_rounds b [] bound r steps") auto

lemma for_rounds_big_overflow:
  assumes "num_le (Fin (of_nat counter_limit)) bound" "exs \<noteq> []"
  shows "r \<le> counter_limit \<Longrightarrow> for_rounds b exs bound r steps = Some (Inl RangeError)"
proof (induction "array_limit - length steps" arbitrary: steps r rule: less_induct)
  case less
  have c: "num_le (Fin (of_nat r)) bound"
    using assms(1) less.prems by (rule num_le_big)
  show ?case
  proof (cases "length steps + length exs \<le> array_limit")
    case True
    from assms(2) have "1 \<le> length exs" by (cases exs) simp_all
    with True have l: "length steps \<le> array_limit"
      and "array_limit - (length steps + length exs) < array_limit - length steps"
      by linarith+
    then have d: "array_limit - length (steps @ round_steps b r exs) < array_limit - length steps"
      by (simp add: length_round_steps)
    have "for_rounds b exs bound r steps
            = for_rounds b exs bound (incr r) (steps @ round_steps b r exs)"
      using c True l by (subst for_rounds.simps) (simp add: round_eq)
    also have "\<dots> = Some (Inl RangeError)"
      using less.hyps[OF d incr_le[OF less.prems]] .
    finally show ?thesis .
  next
    case False
    show ?thesis
    proof (cases "forEach_exercises b r [0..<length exs] steps")
      case (Inl x)
      then have "x = RangeError" by (rule forEach_exercises_Inl)
      with Inl c show ?thesis by (subst for_rounds.simps) simp
    next
      case (Inr steps')
      have "length steps \<le> array_limit \<Longrightarrow> False"
        using Inr False by (simp add: round_eq)
      moreover have "\<not> length steps \<le> array_limit \<Longrightarrow> False"
        using Inr assms(2) by (cases exs) (auto simp: upt_rec push_def split: if_splits)
      ultimately show ?thesis by blast
    qed
  qed
qed

lemma counter_limit_rat: "(of_nat counter_limit :: rat) = 2 ^ 53"
  by (simp add: counter_limit_def)

lemma for_rounds_ends:
  assumes "\<not> num_le (Fin (of_nat counter_limit)) bound" "length steps \<le> array_limit"
  shows "for_rounds b exs bound 1 steps =
     Some (if length steps + round_count bound * length exs \<le> array_limit
           then Inr (steps @ steps_from b exs 1 (round_count bound))
           else Inl RangeError)"
proof (cases bound)
  case (Fin q)
  with assms(1) have "q < of_nat counter_limit" by simp
  from for_rounds_Fin[OF this, of 1 steps b exs] assms(2) Fin show ?thesis
    by (simp add: round_count_def)
next
  case NaN
  with assms(2) show ?thesis by (subst for_rounds.simps) (simp add: round_count_def)
next
  case NInf
  with assms(2) show ?thesis by (subst for_rounds.simps) (simp add: round_count_def)
next
  case PInf
  with assms(1) show ?thesis by simp
qed

lemma block_rounds_big:
  "num_le (Fin (of_nat counter_limit)) (block_rounds blk)
     \<longleftrightarrow> num_le (Fin (of_nat counter_limit)) (rounds blk)"
  by (cases "rounds blk")
     (auto simp: block_rounds_def Math_max_def or_num_def counter_limit_def)

lemma forEach_blocks_eq:
  "\<forall>blk\<in>set bs. \<not> num_le (Fin (of_nat counter_limit)) (rounds blk) \<Longrightarrow>
   length steps \<le> array_limit \<Longrightarrow>
   forEach_blocks bs b steps =
     Some (if length steps + total_steps bs \<le> array_limit then Inr (steps @ all_from b bs)
           else Inl RangeError)"
proof (induction bs arbitrary: b steps)
  case Nil
  then show ?case by (simp add: total_steps_def)
next
  case (Cons blk blks)
  let ?n = "round_count (block_rounds blk) * length (exercises blk)"
  from Cons.prems(1) have nb: "\<not> num_le (Fin (of_nat counter_limit)) (block_rounds blk)"
    by (simp add: block_rounds_big)
  note loop = for_rounds_ends[OF nb Cons.prems(2), of b "exercises blk"]
  have tot: "total_steps (blk # blks) = ?n + total_steps blks"
    by (simp add: total_steps_def)
  show ?case
  proof (cases "length steps + ?n \<le> array_limit")
    case True
    then have len: "length (steps @ steps_from b (exercises blk) 1 (round_count (block_rounds blk)))
                      \<le> array_limit"
      by (simp add: length_steps_from)
    from Cons.IH[OF _ len, of "b + 1"] Cons.prems(1) loop True show ?thesis
      by (simp add: tot length_steps_from add.assoc)
  next
    case False
    with loop show ?thesis by (simp add: tot)
  qed
qed

lemma forEach_blocks_Inr:
  "forEach_blocks bs b steps = Some (Inr res) \<Longrightarrow> length steps \<le> array_limit \<Longrightarrow>
   \<forall>blk\<in>set bs. \<not> num_le (Fin (of_nat counter_limit)) (rounds blk)"
proof (induction bs arbitrary: b steps)
  case Nil
  then show ?case by simp
next
  case (Cons blk blks)
  from Cons.prems(1) obtain steps' where
    loop: "for_rounds b (exercises blk) (block_rounds blk) 1 steps = Some (Inr steps')"
    and rest: "forEach_blocks blks (b + 1) steps' = Some (Inr res)"
    by (auto split: option.splits sum.splits)
  have "(1::nat) \<le> counter_limit" by (simp add: counter_limit_def)
  with for_rounds_big_Some[OF loop]
  have nb: "\<not> num_le (Fin (of_nat counter_limit)) (block_rounds blk)" by auto
  from for_rounds_ends[OF nb Cons.prems(2), of b "exercises blk"] loop
  have "length steps' \<le> array_limit"
    by (auto simp: length_steps_from split: if_splits)
  from Cons.IH[OF rest this] nb show ?case
    by (simp add: block_rounds_big)
qed

lemma buildSchedule_Inr_iff:
  "buildSchedule bs = Some (Inr res) \<longleftrightarrow>
     (\<forall>blk\<in>set bs. \<not> num_le (Fin (of_nat counter_limit)) (rounds blk)) \<and>
     total_steps bs \<le> array_limit \<and> res = all_from 0 bs"
proof
  assume r: "buildSchedule bs = Some (Inr res)"
  then have nb: "\<forall>blk\<in>set bs. \<not> num_le (Fin (of_nat counter_limit)) (rounds blk)"
    unfolding buildSchedule_def by (rule forEach_blocks_Inr) simp
  from forEach_blocks_eq[OF nb, of "[]" 0] r
  show "(\<forall>blk\<in>set bs. \<not> num_le (Fin (of_nat counter_limit)) (rounds blk)) \<and>
     total_steps bs \<le> array_limit \<and> res = all_from 0 bs"
    using nb by (auto simp: buildSchedule_def split: if_splits)
next
  assume a: "(\<forall>blk\<in>set bs. \<not> num_le (Fin (of_nat counter_limit)) (rounds blk)) \<and>
     total_steps bs \<le> array_limit \<and> res = all_from 0 bs"
  with forEach_blocks_eq[of bs "[]" 0] show "buildSchedule bs = Some (Inr res)"
    by (simp add: buildSchedule_def)
qed

lemma block_rounds_PInf: "block_rounds blk = PInf \<longleftrightarrow> rounds blk = PInf"
  by (cases "rounds blk") (auto simp: block_rounds_def Math_max_def or_num_def)

lemma not_big_not_PInf:
  "\<not> num_le (Fin (of_nat counter_limit)) (rounds blk) \<Longrightarrow> rounds blk \<noteq> PInf"
  by auto

lemma set_round_steps:
  "s \<in> set (round_steps b r exs) \<longleftrightarrow> bi s = b \<and> ri s = r \<and> ei s < length exs"
  by (cases s) (auto simp: round_steps_def)

lemma set_steps_from:
  "s \<in> set (steps_from b exs r k) \<longleftrightarrow>
     bi s = b \<and> r \<le> ri s \<and> ri s < r + k \<and> ei s < length exs"
proof (induction k arbitrary: r)
  case 0
  then show ?case by simp
next
  case (Suc k)
  show ?case
    unfolding steps_from.simps set_append Un_iff Suc.IH set_round_steps by auto
qed

lemma set_all_from:
  "s \<in> set (all_from b bs) \<longleftrightarrow>
     b \<le> bi s \<and> bi s < b + length bs \<and>
     1 \<le> ri s \<and> ri s \<le> round_count (block_rounds (bs ! (bi s - b))) \<and>
     ei s < length (exercises (bs ! (bi s - b)))"
proof (induction bs arbitrary: b)
  case Nil
  then show ?case by auto
next
  case (Cons blk blks)
  show ?case
  proof (cases "bi s = b")
    case True
    then show ?thesis
      unfolding all_from.simps set_append Un_iff Cons.IH set_steps_from by auto
  next
    case False
    then have "b \<le> bi s \<Longrightarrow> (blk # blks) ! (bi s - b) = blks ! (bi s - Suc b)"
      by (simp add: nth_Cons')
    with False show ?thesis
      unfolding all_from.simps set_append Un_iff Cons.IH set_steps_from by auto
  qed
qed

lemma sorted_round_steps: "sorted_wrt step_before (round_steps b r exs)"
  by (simp add: round_steps_def sorted_wrt_map step_before_def)

lemma sorted_steps_from: "sorted_wrt step_before (steps_from b exs r k)"
proof (induction k arbitrary: r)
  case 0
  then show ?case by simp
next
  case (Suc k)
  have "\<forall>x\<in>set (round_steps b r exs). \<forall>y\<in>set (steps_from b exs (Suc r) k). step_before x y"
    by (auto simp: set_round_steps set_steps_from step_before_def)
  then show ?case
    by (simp add: sorted_wrt_append sorted_round_steps Suc.IH)
qed

lemma sorted_all_from: "sorted_wrt step_before (all_from b bs)"
proof (induction bs arbitrary: b)
  case Nil
  then show ?case by simp
next
  case (Cons blk blks)
  have "\<forall>x\<in>set (steps_from b (exercises blk) 1 (round_count (block_rounds blk))).
          \<forall>y\<in>set (all_from (Suc b) blks). step_before x y"
    by (auto simp: set_steps_from set_all_from step_before_def)
  then show ?case
    by (simp add: sorted_wrt_append sorted_steps_from Cons.IH)
qed

lemma block_rounds_cases:
  "block_rounds blk = PInf \<or> (\<exists>q. 1 \<le> q \<and> block_rounds blk = Fin q)"
  by (cases "rounds blk") (auto simp: block_rounds_def Math_max_def or_num_def)

lemma num_le_block_rounds:
  assumes "rounds blk \<noteq> PInf" "1 \<le> r"
  shows "num_le (Fin (of_nat r)) (block_rounds blk) \<longleftrightarrow> r \<le> round_count (block_rounds blk)"
proof -
  from assms(1) block_rounds_cases[of blk] obtain q where "block_rounds blk = Fin q"
    by (auto simp: block_rounds_PInf)
  then show ?thesis
    using of_nat_le_iff_floor[OF assms(2), of q] by (simp add: round_count_def)
qed

lemma round_count_spec:
  assumes "rounds blk \<noteq> PInf"
  shows "round_count (block_rounds blk) = nat (max 1 (spec_intOrDefault (rounds blk) 1))"
proof (cases "rounds blk")
  case (Fin q)
  show ?thesis
  proof (cases "1 \<le> q")
    case True
    then have "\<lfloor>q\<rfloor> \<noteq> 0" and "max 1 \<lfloor>q\<rfloor> = \<lfloor>q\<rfloor>" and "0 \<le> q" and "q \<noteq> 0"
      by linarith+
    with True Fin show ?thesis
      by (simp add: block_rounds_def Math_max_def or_num_def round_count_def
          spec_intOrDefault_def Let_def)
  next
    case False
    have spec: "nat (max 1 (spec_intOrDefault (Fin q) 1)) = 1"
    proof (cases "0 \<le> q")
      case True
      with False have "\<lfloor>q\<rfloor> = 0" by linarith
      with True show ?thesis by (simp add: spec_intOrDefault_def)
    next
      case neg: False
      then have "\<lceil>q\<rceil> \<le> 0" by linarith
      then have "max 1 \<lceil>q\<rceil> = 1" by simp
      with neg show ?thesis by (simp add: spec_intOrDefault_def Let_def)
    qed
    have "block_rounds blk = Fin 1"
      using False Fin by (simp add: block_rounds_def Math_max_def or_num_def)
    with spec Fin show ?thesis by (simp add: round_count_def)
  qed
qed (use assms in \<open>simp_all add: block_rounds_def Math_max_def or_num_def round_count_def
          spec_intOrDefault_def\<close>)

lemma total_steps_spec:
  "\<forall>blk\<in>set bs. rounds blk \<noteq> PInf \<Longrightarrow> total_steps bs = spec_length bs"
  unfolding total_steps_def spec_length_def
  by (rule arg_cong[where f = sum_list]) (simp add: round_count_spec)

lemma all_from_member:
  assumes "\<forall>blk\<in>set bs. rounds blk \<noteq> PInf"
  shows "s \<in> set (all_from 0 bs) \<longleftrightarrow>
           bi s < length bs \<and> 1 \<le> ri s \<and>
           num_le (Fin (of_nat (ri s))) (block_rounds (bs ! bi s)) \<and>
           ei s < length (exercises (bs ! bi s))"
proof (cases "bi s < length bs \<and> 1 \<le> ri s")
  case True
  then have "rounds (bs ! bi s) \<noteq> PInf" using assms by simp
  from num_le_block_rounds[OF this, of "ri s"] True show ?thesis
    by (simp add: set_all_from)
next
  case False
  then show ?thesis by (auto simp: set_all_from)
qed

lemma all_from_no_exercises:
  "\<forall>blk\<in>set bs. exercises blk = [] \<Longrightarrow> all_from b bs = []"
proof -
  assume a: "\<forall>blk\<in>set bs. exercises blk = []"
  then have "total_steps bs = 0"
    unfolding total_steps_def by (induction bs) simp_all
  then have "length (all_from b bs) = 0" by (simp add: length_all_from)
  then show ?thesis by simp
qed

section \<open>When the schedule is returned\<close>

lemma big_rounds:
  "num_le (Fin (of_nat counter_limit)) (rounds blk) \<longleftrightarrow> num_le (Fin (2 ^ 53)) (rounds blk)"
  unfolding counter_limit_rat ..

lemma one_le_counter_limit: "1 \<le> counter_limit"
  by (simp add: counter_limit_def)

text \<open>The increment of the model is the increment of doubles: \<open>r + 1\<close>, rounded.\<close>

lemma bl_2_53: "bit_length (2 ^ 53) = 54"
  by (simp add: bit_length.simps)

lemma double_round_2_53: "double_round (2 ^ 53) = Fin (2 ^ 53)"
proof -
  have "\<lfloor>(2::rat) ^ 53\<rfloor> = 2 ^ 53" by simp
  then have il: "ilog2 (2 ^ 53) = 53"
    using bl_2_53 by (simp add: ilog2_def)
  have "round_half_even ((2::rat) ^ 53 / 2) = 2 ^ 52"
    using round_half_even_int[of "2 ^ 52"] by simp
  then show ?thesis
    using il by (simp add: double_round_def Let_def pow2_def)
qed

lemma incr_double:
  assumes "r \<le> counter_limit"
  shows "double_round (of_nat r + 1) = Fin (of_nat (incr r))"
proof -
  consider "r + 1 < counter_limit" | "r + 1 = counter_limit" | "r = counter_limit"
    using assms by linarith
  then show ?thesis
  proof cases
    case 1
    then have "r + 1 < 2 ^ 53" by (simp add: counter_limit_def)
    from double_round_nat[OF this] 1 show ?thesis by (simp add: incr_def add.commute)
  next
    case 2
    then have "(of_nat r :: rat) + 1 = of_nat counter_limit"
      by (metis of_nat_Suc Suc_eq_plus1 add.commute)
    moreover from 2 have "incr r = counter_limit" by (simp add: incr_def)
    ultimately show ?thesis
      using double_round_2_53 by (simp only: counter_limit_rat)
  next
    case 3
    then have "incr r = counter_limit" by (simp add: incr_def)
    with 3 show ?thesis
      using double_round_2_53_1 by (simp only: counter_limit_rat)
  qed
qed

lemma buildSchedule_returns_iff:
  "(\<exists>steps. buildSchedule bs = Some (Inr steps)) \<longleftrightarrow>
     (\<forall>blk\<in>set bs. \<not> num_le (Fin (2 ^ 53)) (rounds blk)) \<and> total_steps bs \<le> array_limit"
  unfolding buildSchedule_Inr_iff big_rounds by simp

lemma buildSchedule_returns:
  "buildSchedule bs = Some (Inr steps) \<longleftrightarrow>
     (\<forall>blk\<in>set bs. \<not> num_le (Fin (2 ^ 53)) (rounds blk)) \<and> total_steps bs \<le> array_limit \<and>
     steps = all_from 0 bs"
  unfolding buildSchedule_Inr_iff big_rounds ..

lemma small_not_PInf: "\<not> num_le (Fin (2 ^ 53)) (rounds blk) \<Longrightarrow> rounds blk \<noteq> PInf"
  by auto

lemma small_total_steps:
  "\<forall>blk\<in>set bs. \<not> num_le (Fin (2 ^ 53)) (rounds blk) \<Longrightarrow> total_steps bs = spec_length bs"
  by (rule total_steps_spec) (auto dest: small_not_PInf)

lemma small_member:
  assumes "\<forall>blk\<in>set bs. \<not> num_le (Fin (2 ^ 53)) (rounds blk)"
  shows "s \<in> set (all_from 0 bs) \<longleftrightarrow>
           bi s < length bs \<and> 1 \<le> ri s \<and>
           num_le (Fin (of_nat (ri s))) (block_rounds (bs ! bi s)) \<and>
           ei s < length (exercises (bs ! bi s))"
  by (rule all_from_member) (use assms in \<open>auto dest: small_not_PInf\<close>)

text \<open>A first block whose round count is \<open>2^53\<close> or more: without exercises the loop never
  ends; with exercises it ends when \<open>push\<close> throws.\<close>

lemma never_returns:
  assumes "num_le (Fin (2 ^ 53)) (rounds blk)" "exercises blk = []"
  shows "forEach_blocks (blk # blks) b steps = None"
proof -
  from assms(1) have "num_le (Fin (of_nat counter_limit)) (block_rounds blk)"
    by (simp only: block_rounds_big big_rounds)
  from for_rounds_big_empty[OF this one_le_counter_limit] assms(2) show ?thesis
    by simp
qed

lemma overflows:
  assumes "num_le (Fin (2 ^ 53)) (rounds blk)" "exercises blk \<noteq> []"
  shows "forEach_blocks (blk # blks) b steps = Some (Inl RangeError)"
proof -
  from assms(1) have "num_le (Fin (of_nat counter_limit)) (block_rounds blk)"
    by (simp only: block_rounds_big big_rounds)
  from for_rounds_big_overflow[OF this assms(2) one_le_counter_limit] show ?thesis
    by simp
qed

lemma no_exercises_never_returns:
  assumes "\<forall>blk\<in>set bs. exercises blk = []" "\<exists>blk\<in>set bs. num_le (Fin (2 ^ 53)) (rounds blk)"
    "length steps \<le> array_limit"
  shows "forEach_blocks bs b steps = None"
  using assms
proof (induction bs arbitrary: b steps)
  case Nil
  then show ?case by simp
next
  case (Cons blk blks)
  show ?case
  proof (cases "num_le (Fin (2 ^ 53)) (rounds blk)")
    case True
    with Cons.prems(1) show ?thesis by (simp only: never_returns list.set_intros)
  next
    case False
    then have nb: "\<not> num_le (Fin (of_nat counter_limit)) (block_rounds blk)"
      by (simp only: block_rounds_big big_rounds not_False_eq_True)
    from Cons.prems(1) have e: "exercises blk = []" by simp
    have "length (steps_from b [] 1 (round_count (block_rounds blk))) = 0"
      by (simp add: length_steps_from)
    then have "steps_from b [] 1 (round_count (block_rounds blk)) = []" by simp
    with for_rounds_ends[OF nb Cons.prems(3), of b "exercises blk"] e Cons.prems(3)
    have loop: "for_rounds b (exercises blk) (block_rounds blk) 1 steps = Some (Inr steps)"
      by simp
    from False Cons.prems(2) have "\<exists>blk\<in>set blks. num_le (Fin (2 ^ 53)) (rounds blk)"
      by auto
    from Cons.IH[OF _ this Cons.prems(3)] Cons.prems(1) loop show ?thesis by simp
  qed
qed

lemma total_steps_scenario: "total_steps scenario_blocks = 5"
  by (simp add: scenario_blocks_def total_steps_def block_rounds_def Math_max_def or_num_def
      round_count_def)

lemma all_from_scenario: "all_from 0 scenario_blocks = scenario_schedule"
  by (simp add: scenario_blocks_def scenario_schedule_def block_rounds_def Math_max_def
      or_num_def round_count_def round_steps_def ex_def eval_nat_numeral)

lemma buildSchedule_scenario: "buildSchedule scenario_blocks = Some (Inr scenario_schedule)"
proof -
  have "\<forall>blk\<in>set scenario_blocks. \<not> num_le (Fin (2 ^ 53)) (rounds blk)"
    by (simp add: scenario_blocks_def)
  moreover have "total_steps scenario_blocks \<le> array_limit"
    by (simp add: total_steps_scenario array_limit_def)
  ultimately show ?thesis
    unfolding buildSchedule_returns using all_from_scenario by simp
qed

lemma startRun_scenario:
  "startRun (app_with scenario_blocks) =
     Some (Inr ((app_with scenario_blocks)\<lparr>schedule := scenario_schedule, idx := 0, mode := RUN\<rparr>))"
  using buildSchedule_scenario by (simp add: startRun_def blocks_def workout_def app_with_def)

section \<open>Claims about the scheduler\<close>

text \<open>
  C1 (as amended). For every list of blocks in which every round count is below \<open>2^53\<close> and
  whose step count, the sum over the blocks of \<open>max(1, intOrDefault(rounds, 1))\<close> times the
  number of exercises, is at most \<open>2^32 - 1\<close>, \<open>buildSchedule\<close> returns a schedule of exactly
  that length, the integer round count being the integer part of \<open>rounds\<close>. These are the only
  lists for which it returns, and whenever it returns the length is that sum. \<open>buildSchedule([])\<close>
  is \<open>[]\<close>.
\<close>

theorem C1_schedule_length:
  "((\<forall>blk\<in>set bs. \<not> num_le (Fin (2 ^ 53)) (rounds blk)) \<and> spec_length bs \<le> array_limit \<longrightarrow>
      (\<exists>steps. buildSchedule bs = Some (Inr steps) \<and> length steps = spec_length bs))
   \<and> (buildSchedule bs = Some (Inr steps) \<longrightarrow>
        length steps = spec_length bs \<and>
        (\<forall>blk\<in>set bs. \<not> num_le (Fin (2 ^ 53)) (rounds blk)) \<and> spec_length bs \<le> array_limit)
   \<and> buildSchedule [] = Some (Inr [])"
proof (intro conjI impI)
  assume a: "(\<forall>blk\<in>set bs. \<not> num_le (Fin (2 ^ 53)) (rounds blk)) \<and> spec_length bs \<le> array_limit"
  then have "total_steps bs = spec_length bs" by (simp add: small_total_steps)
  with a have "buildSchedule bs = Some (Inr (all_from 0 bs))"
    and "length (all_from 0 bs) = spec_length bs"
    by (simp_all add: buildSchedule_returns length_all_from)
  then show "\<exists>steps. buildSchedule bs = Some (Inr steps) \<and> length steps = spec_length bs"
    by blast
next
  assume "buildSchedule bs = Some (Inr steps)"
  then have small: "\<forall>blk\<in>set bs. \<not> num_le (Fin (2 ^ 53)) (rounds blk)"
    and le: "total_steps bs \<le> array_limit" and steps: "steps = all_from 0 bs"
    by (simp_all add: buildSchedule_returns)
  from small have t: "total_steps bs = spec_length bs" by (rule small_total_steps)
  from steps t show "length steps = spec_length bs" by (simp add: length_all_from)
  from small show "\<forall>blk\<in>set bs. \<not> num_le (Fin (2 ^ 53)) (rounds blk)" .
  from le t show "spec_length bs \<le> array_limit" by simp
next
  show "buildSchedule [] = Some (Inr [])" by (simp add: buildSchedule_def)
qed

text \<open>The theorem at a two-block routine, one round count being \<open>2.5\<close>: five steps.\<close>

theorem C1_schedule_length_witness:
  "\<exists>steps. buildSchedule [\<lparr>name = ''A'', rounds = Fin 1, exercises = [ex ''e1'' 30 seconds]\<rparr>,
                \<lparr>name = ''B'', rounds = Fin (5 / 2),
                 exercises = [ex ''e2'' 12 reps, ex ''e3'' 10 reps]\<rparr>] = Some (Inr steps)
        \<and> length steps = 5"
proof -
  let ?bs = "[\<lparr>name = ''A'', rounds = Fin 1, exercises = [ex ''e1'' 30 seconds]\<rparr>,
                \<lparr>name = ''B'', rounds = Fin (5 / 2),
                 exercises = [ex ''e2'' 12 reps, ex ''e3'' 10 reps]\<rparr>]"
  have n: "spec_length ?bs = 5"
    by (simp add: spec_length_def spec_intOrDefault_def floor_five_halves)
  have "(\<forall>blk\<in>set ?bs. \<not> num_le (Fin (2 ^ 53)) (rounds blk)) \<and> spec_length ?bs \<le> array_limit"
    unfolding n by (simp add: array_limit_def)
  from C1_schedule_length[of ?bs, THEN conjunct1, THEN mp, OF this] show ?thesis
    unfolding n .
qed

text \<open>
  C1 as stated fails for a round count of \<open>2^53\<close> or more, \<open>Infinity\<close> included: the counter of
  \<open>for (let r = 1; r <= rounds; r++)\<close> stays at \<open>2^53\<close> and the condition never fails. For a
  block without exercises \<open>buildSchedule\<close> never returns; for a block with an exercise it throws
  a \<open>RangeError\<close> when the array is full. In neither case is there a list with a length.
\<close>

theorem C1_rounds_counterexample:
  "buildSchedule [\<lparr>name = ''A'', rounds = PInf, exercises = []\<rparr>] = None
   \<and> buildSchedule [\<lparr>name = ''A'', rounds = Fin (2 ^ 53), exercises = []\<rparr>] = None
   \<and> buildSchedule [\<lparr>name = ''A'', rounds = PInf, exercises = [ex ''e1'' 30 seconds]\<rparr>]
       = Some (Inl RangeError)"
proof (intro conjI)
  show "buildSchedule [\<lparr>name = ''A'', rounds = PInf, exercises = []\<rparr>] = None"
    unfolding buildSchedule_def by (rule never_returns) simp_all
  show "buildSchedule [\<lparr>name = ''A'', rounds = Fin (2 ^ 53), exercises = []\<rparr>] = None"
    unfolding buildSchedule_def by (rule never_returns) simp_all
  show "buildSchedule [\<lparr>name = ''A'', rounds = PInf, exercises = [ex ''e1'' 30 seconds]\<rparr>]
       = Some (Inl RangeError)"
    unfolding buildSchedule_def by (rule overflows) simp_all
qed

text \<open>
  C2 (as amended). For every list of blocks in which every round count is below \<open>2^53\<close> and
  whose step count is at most \<open>2^32 - 1\<close>, \<open>buildSchedule\<close> returns, and its steps are strictly
  ordered by block, then by round within a block, then by position in the exercise list, and
  they are exactly the triples of a block index, a round from 1 up to the block's round count,
  and an exercise index of that block: every pair of block \<open>i\<close> comes before any pair of block
  \<open>i + 1\<close>, and all exercises of round \<open>r\<close> come, in list order, before any of round \<open>r + 1\<close>.
  These are the only lists for which it returns. A single block with three rounds of the
  exercises X, Y, Z yields exactly the nine steps of round 1, round 2 and round 3, in that
  order.
\<close>

theorem C2_schedule_order:
  "((\<forall>blk\<in>set bs. \<not> num_le (Fin (2 ^ 53)) (rounds blk)) \<and> total_steps bs \<le> array_limit \<longrightarrow>
      (\<exists>steps. buildSchedule bs = Some (Inr steps) \<and>
         sorted_wrt step_before steps \<and>
         (\<forall>s. s \<in> set steps \<longleftrightarrow>
             bi s < length bs \<and> 1 \<le> ri s \<and>
             num_le (Fin (of_nat (ri s))) (block_rounds (bs ! bi s)) \<and>
             ei s < length (exercises (bs ! bi s)))))
   \<and> (buildSchedule bs = Some (Inr steps) \<longrightarrow>
        (\<forall>blk\<in>set bs. \<not> num_le (Fin (2 ^ 53)) (rounds blk)) \<and> total_steps bs \<le> array_limit \<and>
        sorted_wrt step_before steps \<and>
        (\<forall>s. s \<in> set steps \<longleftrightarrow>
             bi s < length bs \<and> 1 \<le> ri s \<and>
             num_le (Fin (of_nat (ri s))) (block_rounds (bs ! bi s)) \<and>
             ei s < length (exercises (bs ! bi s))))
   \<and> buildSchedule [\<lparr>name = n, rounds = Fin 3, exercises = [X, Y, Z]\<rparr>] =
       Some (Inr [\<lparr>bi = 0, ri = 1, ei = 0\<rparr>, \<lparr>bi = 0, ri = 1, ei = 1\<rparr>, \<lparr>bi = 0, ri = 1, ei = 2\<rparr>,
             \<lparr>bi = 0, ri = 2, ei = 0\<rparr>, \<lparr>bi = 0, ri = 2, ei = 1\<rparr>, \<lparr>bi = 0, ri = 2, ei = 2\<rparr>,
             \<lparr>bi = 0, ri = 3, ei = 0\<rparr>, \<lparr>bi = 0, ri = 3, ei = 1\<rparr>, \<lparr>bi = 0, ri = 3, ei = 2\<rparr>])"
proof -
  have order: "sorted_wrt step_before (all_from 0 bs) \<and>
         (\<forall>s. s \<in> set (all_from 0 bs) \<longleftrightarrow>
             bi s < length bs \<and> 1 \<le> ri s \<and>
             num_le (Fin (of_nat (ri s))) (block_rounds (bs ! bi s)) \<and>
             ei s < length (exercises (bs ! bi s)))"
    if "\<forall>blk\<in>set bs. \<not> num_le (Fin (2 ^ 53)) (rounds blk)"
    using small_member[OF that] sorted_all_from[of 0 bs] by blast
  have 1: "\<exists>steps. buildSchedule bs = Some (Inr steps) \<and>
         sorted_wrt step_before steps \<and>
         (\<forall>s. s \<in> set steps \<longleftrightarrow>
             bi s < length bs \<and> 1 \<le> ri s \<and>
             num_le (Fin (of_nat (ri s))) (block_rounds (bs ! bi s)) \<and>
             ei s < length (exercises (bs ! bi s)))"
    if a: "(\<forall>blk\<in>set bs. \<not> num_le (Fin (2 ^ 53)) (rounds blk)) \<and> total_steps bs \<le> array_limit"
  proof -
    from a have "buildSchedule bs = Some (Inr (all_from 0 bs))"
      by (simp add: buildSchedule_returns)
    with order a show ?thesis by blast
  qed
  have 2: "(\<forall>blk\<in>set bs. \<not> num_le (Fin (2 ^ 53)) (rounds blk)) \<and> total_steps bs \<le> array_limit \<and>
        sorted_wrt step_before steps \<and>
        (\<forall>s. s \<in> set steps \<longleftrightarrow>
             bi s < length bs \<and> 1 \<le> ri s \<and>
             num_le (Fin (of_nat (ri s))) (block_rounds (bs ! bi s)) \<and>
             ei s < length (exercises (bs ! bi s)))"
    if r: "buildSchedule bs = Some (Inr steps)"
  proof -
    from r have small: "\<forall>blk\<in>set bs. \<not> num_le (Fin (2 ^ 53)) (rounds blk)"
      and le: "total_steps bs \<le> array_limit" and steps: "steps = all_from 0 bs"
      by (simp_all add: buildSchedule_returns)
    from order[OF small] small le show ?thesis unfolding steps by blast
  qed
  have t: "total_steps [\<lparr>name = n, rounds = Fin 3, exercises = [X, Y, Z]\<rparr>] = 9"
    by (simp add: total_steps_def block_rounds_def Math_max_def or_num_def round_count_def)
  have 3: "buildSchedule [\<lparr>name = n, rounds = Fin 3, exercises = [X, Y, Z]\<rparr>] =
       Some (Inr [\<lparr>bi = 0, ri = 1, ei = 0\<rparr>, \<lparr>bi = 0, ri = 1, ei = 1\<rparr>, \<lparr>bi = 0, ri = 1, ei = 2\<rparr>,
             \<lparr>bi = 0, ri = 2, ei = 0\<rparr>, \<lparr>bi = 0, ri = 2, ei = 1\<rparr>, \<lparr>bi = 0, ri = 2, ei = 2\<rparr>,
             \<lparr>bi = 0, ri = 3, ei = 0\<rparr>, \<lparr>bi = 0, ri = 3, ei = 1\<rparr>, \<lparr>bi = 0, ri = 3, ei = 2\<rparr>])"
    unfolding buildSchedule_returns t
    by (simp add: array_limit_def)
       (simp add: block_rounds_def Math_max_def or_num_def round_count_def round_steps_def
          eval_nat_numeral)
  from 1 2 3 show ?thesis by blast
qed

text \<open>The theorem at the routine of the specification's scenario: its five steps, in order.\<close>

theorem C2_schedule_order_witness:
  "buildSchedule scenario_blocks = Some (Inr scenario_schedule) \<and>
   sorted_wrt step_before scenario_schedule \<and>
   \<lparr>bi = 1, ri = 2, ei = 1\<rparr> \<in> set scenario_schedule \<and>
   \<lparr>bi = 1, ri = 3, ei = 1\<rparr> \<notin> set scenario_schedule"
proof -
  have "(\<forall>blk\<in>set scenario_blocks. \<not> num_le (Fin (2 ^ 53)) (rounds blk)) \<and>
        total_steps scenario_blocks \<le> array_limit"
    unfolding total_steps_scenario by (simp add: scenario_blocks_def array_limit_def)
  from C2_schedule_order[of scenario_blocks, THEN conjunct1, THEN mp, OF this]
  obtain steps where "buildSchedule scenario_blocks = Some (Inr steps)"
    and "sorted_wrt step_before steps" by blast
  with buildSchedule_scenario have "sorted_wrt step_before scenario_schedule" by simp
  moreover have "\<lparr>bi = 1, ri = 2, ei = 1\<rparr> \<in> set scenario_schedule"
    "\<lparr>bi = 1, ri = 3, ei = 1\<rparr> \<notin> set scenario_schedule"
    by (simp_all add: scenario_schedule_def)
  ultimately show ?thesis using buildSchedule_scenario by simp
qed

text \<open>
  C2 as stated fails for a list with a round count of \<open>2^53\<close> or more: the round loop of that
  block does not end by its condition, so the steps of the blocks after it are never emitted
  and no schedule is returned. Here the second block's exercise never appears.
\<close>

theorem C2_later_block_counterexample:
  "buildSchedule [\<lparr>name = ''A'', rounds = Fin (2 ^ 53), exercises = []\<rparr>,
                  \<lparr>name = ''B'', rounds = Fin 1, exercises = [ex ''e1'' 30 seconds]\<rparr>] = None
   \<and> buildSchedule [\<lparr>name = ''A'', rounds = Fin (2 ^ 53), exercises = [ex ''e0'' 30 seconds]\<rparr>,
                  \<lparr>name = ''B'', rounds = Fin 1, exercises = [ex ''e1'' 30 seconds]\<rparr>]
       = Some (Inl RangeError)"
proof (intro conjI)
  show "buildSchedule [\<lparr>name = ''A'', rounds = Fin (2 ^ 53), exercises = []\<rparr>,
                  \<lparr>name = ''B'', rounds = Fin 1, exercises = [ex ''e1'' 30 seconds]\<rparr>] = None"
    unfolding buildSchedule_def by (rule never_returns) simp_all
  show "buildSchedule [\<lparr>name = ''A'', rounds = Fin (2 ^ 53), exercises = [ex ''e0'' 30 seconds]\<rparr>,
                  \<lparr>name = ''B'', rounds = Fin 1, exercises = [ex ''e1'' 30 seconds]\<rparr>]
       = Some (Inl RangeError)"
    unfolding buildSchedule_def by (rule overflows) simp_all
qed

text \<open>
  C10. Every step that \<open>buildSchedule\<close> produces has a block index within the block list, an
  exercise index within that block's exercises, and a round between 1 and
  \<open>Math.max(1, Number(rounds || 1))\<close> of that block; \<open>buildSchedule\<close> returns for every list of
  blocks whose round counts are below \<open>2^53\<close> and whose step count is at most \<open>2^32 - 1\<close>; and
  after \<open>startRun\<close>, at every index of the fresh schedule, \<open>cur\<close>, \<open>currentBlock\<close> and \<open>current\<close>
  are all defined.
\<close>

theorem C10_steps_in_range:
  "(buildSchedule bs = Some (Inr steps) \<longrightarrow>
      (\<forall>s\<in>set steps.
          bi s < length bs \<and> ei s < length (exercises (bs ! bi s)) \<and> 1 \<le> ri s \<and>
          num_le (Fin (of_nat (ri s)))
                 (Math_max (Fin 1) (or_num (rounds (bs ! bi s)) (Fin 1)))))
   \<and> ((\<forall>blk\<in>set bs. \<not> num_le (Fin (2 ^ 53)) (rounds blk)) \<and> total_steps bs \<le> array_limit \<longrightarrow>
        (\<exists>steps. buildSchedule bs = Some (Inr steps)))
   \<and> (startRun a = Some (Inr a') \<longrightarrow>
        (\<forall>i < length (schedule a').
            cur (a'\<lparr>idx := i\<rparr>) \<noteq> None \<and> currentBlock (a'\<lparr>idx := i\<rparr>) \<noteq> None \<and>
            current (a'\<lparr>idx := i\<rparr>) \<noteq> None))"
proof (intro conjI impI ballI allI)
  fix s
  assume "buildSchedule bs = Some (Inr steps)" and "s \<in> set steps"
  then have small: "\<forall>blk\<in>set bs. \<not> num_le (Fin (2 ^ 53)) (rounds blk)"
    and s: "s \<in> set (all_from 0 bs)"
    by (simp_all add: buildSchedule_returns)
  from s show "bi s < length bs" "ei s < length (exercises (bs ! bi s))" "1 \<le> ri s"
    "num_le (Fin (of_nat (ri s))) (Math_max (Fin 1) (or_num (rounds (bs ! bi s)) (Fin 1)))"
    unfolding small_member[OF small] block_rounds_def by simp_all
next
  assume "(\<forall>blk\<in>set bs. \<not> num_le (Fin (2 ^ 53)) (rounds blk)) \<and> total_steps bs \<le> array_limit"
  then show "\<exists>steps. buildSchedule bs = Some (Inr steps)"
    by (simp add: buildSchedule_returns)
next
  fix i
  assume run: "startRun a = Some (Inr a')" and i: "i < length (schedule a')"
  from run obtain sch where sch: "buildSchedule (blocks a) = Some (Inr sch)"
    and a': "a' = a\<lparr>schedule := sch, idx := 0, mode := RUN\<rparr>"
    by (auto simp: startRun_def split: option.splits sum.splits)
  from sch have small: "\<forall>blk\<in>set (blocks a). \<not> num_le (Fin (2 ^ 53)) (rounds blk)"
    and all: "sch = all_from 0 (blocks a)"
    by (simp_all add: buildSchedule_returns)
  from i a' have "sch ! i \<in> set sch" by simp
  then have rng: "bi (sch ! i) < length (blocks a)"
    "ei (sch ! i) < length (exercises (blocks a ! bi (sch ! i)))"
    unfolding all small_member[OF small] by simp_all
  have blocks: "blocks (a'\<lparr>idx := i\<rparr>) = blocks a"
    by (simp add: a' blocks_def workout_def)
  have c: "cur (a'\<lparr>idx := i\<rparr>) = Some (sch ! i)"
    using i by (simp add: a' cur_def)
  then show "cur (a'\<lparr>idx := i\<rparr>) \<noteq> None" by simp
  have b: "currentBlock (a'\<lparr>idx := i\<rparr>) = Some (blocks a ! bi (sch ! i))"
    using rng by (simp add: currentBlock_def c blocks)
  then show "currentBlock (a'\<lparr>idx := i\<rparr>) \<noteq> None" by simp
  show "current (a'\<lparr>idx := i\<rparr>) \<noteq> None"
    using rng by (simp add: current_def c b)
qed

text \<open>The theorem at the scenario's routine: its last step, and the run started on it.\<close>

theorem C10_steps_in_range_witness:
  "buildSchedule scenario_blocks = Some (Inr scenario_schedule) \<and>
   \<lparr>bi = 1, ri = 2, ei = 1\<rparr> \<in> set scenario_schedule \<and>
   (1::nat) < length scenario_blocks \<and> (1::nat) < length (exercises (scenario_blocks ! 1)) \<and>
   num_le (Fin 2) (Math_max (Fin 1) (or_num (rounds (scenario_blocks ! 1)) (Fin 1))) \<and>
   startRun (app_with scenario_blocks) =
     Some (Inr ((app_with scenario_blocks)\<lparr>schedule := scenario_schedule, idx := 0, mode := RUN\<rparr>)) \<and>
   current ((app_with scenario_blocks)\<lparr>schedule := scenario_schedule, idx := 4, mode := RUN\<rparr>)
     \<noteq> None"
proof -
  have m: "\<lparr>bi = 1, ri = 2, ei = 1\<rparr> \<in> set scenario_schedule"
    by (simp add: scenario_schedule_def)
  from C10_steps_in_range[of scenario_blocks scenario_schedule, THEN conjunct1, rule_format,
      OF buildSchedule_scenario m]
  have "(1::nat) < length scenario_blocks \<and> (1::nat) < length (exercises (scenario_blocks ! 1)) \<and>
    num_le (Fin 2) (Math_max (Fin 1) (or_num (rounds (scenario_blocks ! 1)) (Fin 1)))"
    by simp
  moreover have "(4::nat) < length (schedule
      ((app_with scenario_blocks)\<lparr>schedule := scenario_schedule, idx := 0, mode := RUN\<rparr>))"
    by (simp add: scenario_schedule_def)
  from C10_steps_in_range[of _ _ "app_with scenario_blocks", THEN conjunct2, THEN conjunct2,
      rule_format, OF startRun_scenario this]
  have "current ((app_with scenario_blocks)\<lparr>schedule := scenario_schedule, idx := 4, mode := RUN\<rparr>)
     \<noteq> None" by (simp add: app_with_def)
  ultimately show ?thesis using buildSchedule_scenario startRun_scenario m by simp
qed

section \<open>Facts about the handlers\<close>

lemmas Number_defs = Number_def trim_def is_ws_def parse_nondecimal_def
  parse_unsigned_decimal_def is_digit_def digit_val_def parse_exponent_def scale10_def

lemma coerce_ge_1: "num_le (Fin 1) (Math_max (Fin 1) (or_num x (Fin 1)))"
  by (cases x) (auto simp: Math_max_def or_num_def)

lemma Number_examples:
  "Number ''0'' = Fin 0" "Number ''-5'' = Fin (- 5)" "Number ''abc'' = NaN" "Number '''' = Fin 0"
  "Number ''2.5'' = Fin (5 / 2)" "Number ''5'' = Fin 5"
  by (simp_all add: Number_defs double_round_0 double_round_numeral double_round_five_halves)

text \<open>\<open>Number\<close> trims the no-break space, rounds a literal to the nearest double, and
  overflows to \<open>Infinity\<close>.\<close>

lemma Number_nbsp: "Number [CHR 0xA0, CHR ''5''] = Fin 5"
  by (simp add: Number_defs double_round_numeral)

lemma Number_rounds: "Number ''2.9999999999999999999'' = Fin 3"
proof -
  let ?x = "29999999999999999999 / 10000000000000000000 :: rat"
  have f: "\<lfloor>?x\<rfloor> = 2"
    by (rule floor_unique) simp_all
  have il: "ilog2 ?x = 1"
    by (simp only: ilog2_def f) (simp add: bit_length_2)
  have r: "round_half_even (?x / pow2 (1 - 52)) = 6755399441055744"
    by (rule round_half_even_near) (simp_all add: pow2_def)
  have "double_round ?x = Fin (of_int 6755399441055744 * pow2 (1 - 52))"
    by (rule double_round_pos[OF _ il _ r]) (simp_all add: pow2_def)
  then have "double_round ?x = Fin 3" by (simp add: pow2_def)
  then show ?thesis
    by (simp add: Number_defs)
qed

lemma Number_overflow: "Number ''1e999'' = PInf"
proof -
  have "(2::rat) ^ 1024 = (2 ^ 4) ^ 256" by (simp only: power_mult[symmetric]) simp
  also have "\<dots> \<le> (10 ^ 2) ^ 256" by (intro power_mono) simp_all
  also have "\<dots> = 10 ^ 512" by (simp only: power_mult[symmetric]) simp
  also have "\<dots> \<le> 10 ^ 999" by (intro power_increasing) simp_all
  finally have "double_round (10 ^ 999) = PInf" by (rule double_round_overflow)
  moreover have "scale10 1 999 = 10 ^ 999"
    by (simp add: scale10_def del: power_numeral)
  ultimately have "double_round (scale10 1 999) = PInf" by (simp only:)
  then show ?thesis
    by (simp add: Number_def trim_def is_ws_def parse_nondecimal_def
        parse_unsigned_decimal_def is_digit_def digit_val_def parse_exponent_def)
qed

lemma rounds_onChange_ok:
  assumes "b < length (blocks s)" "currentIndex s < length (library s)"
  shows "\<exists>s'. rounds_onChange s b v = Inr s' \<and>
           blocks s' = (blocks s)[b := (blocks s ! b)\<lparr>rounds :=
                          Math_max (Fin 1) (or_num (Number v) (Fin 1))\<rparr>] \<and>
           schedule s' = schedule s \<and> idx s' = idx s \<and> mode s' = mode s \<and>
           currentIndex s' = currentIndex s"
  using assms by (simp add: rounds_onChange_def blocks_def workout_def Let_def)

lemma rounds_onChange_frame:
  assumes "rounds_onChange s b v = Inr s'"
  shows "schedule s' = schedule s \<and> idx s' = idx s \<and> mode s' = mode s"
  using assms by (auto simp: rounds_onChange_def Let_def split: if_splits)

section \<open>Claims about the run-state controller\<close>

text \<open>
  C4 (as amended). When \<open>idx + 1 < schedule.length\<close>, \<open>next\<close> increments the index and leaves
  the mode as it is. Otherwise it sets the mode to \<open>PLAN\<close> and changes nothing else: the
  schedule and the index stay in the state as they were, and a further \<open>next\<close> changes nothing.
  The schedule is replaced only by the next \<open>startRun\<close>, which also sets the index to 0 and the
  mode to \<open>RUN\<close>.
\<close>

theorem C4_advance:
  "(idx s + 1 < length (schedule s) \<longrightarrow>
      nextStep s = s\<lparr>idx := idx s + 1\<rparr> \<and> mode (nextStep s) = mode s)
   \<and> (\<not> idx s + 1 < length (schedule s) \<longrightarrow>
        nextStep s = s\<lparr>mode := PLAN\<rparr> \<and> schedule (nextStep s) = schedule s \<and>
        idx (nextStep s) = idx s \<and> nextStep (nextStep s) = nextStep s)
   \<and> (startRun s = Some (Inr s') \<longrightarrow>
        buildSchedule (blocks s) = Some (Inr (schedule s')) \<and> idx s' = 0 \<and> mode s' = RUN)"
  by (auto simp: nextStep_def startRun_def split: option.splits sum.splits)

text \<open>The theorem on the scenario's run: at its first step, at its last step, after its end,
  and at its start.\<close>

theorem C4_advance_witness:
  "nextStep ((app_with scenario_blocks)\<lparr>schedule := scenario_schedule, idx := 0, mode := RUN\<rparr>)
     = (app_with scenario_blocks)\<lparr>schedule := scenario_schedule, idx := 1, mode := RUN\<rparr>
   \<and> nextStep ((app_with scenario_blocks)\<lparr>schedule := scenario_schedule, idx := 4, mode := RUN\<rparr>)
     = (app_with scenario_blocks)\<lparr>schedule := scenario_schedule, idx := 4, mode := PLAN\<rparr>
   \<and> nextStep ((app_with scenario_blocks)\<lparr>schedule := scenario_schedule, idx := 4, mode := PLAN\<rparr>)
     = (app_with scenario_blocks)\<lparr>schedule := scenario_schedule, idx := 4, mode := PLAN\<rparr>
   \<and> buildSchedule (blocks (app_with scenario_blocks)) = Some (Inr scenario_schedule)"
proof -
  let ?first = "(app_with scenario_blocks)\<lparr>schedule := scenario_schedule, idx := 0, mode := RUN\<rparr>"
  let ?last = "(app_with scenario_blocks)\<lparr>schedule := scenario_schedule, idx := 4, mode := RUN\<rparr>"
  have "idx ?first + 1 < length (schedule ?first)"
    by (simp add: scenario_schedule_def)
  from C4_advance[of ?first, THEN conjunct1, rule_format, OF this]
  have 1: "nextStep ?first = ?first\<lparr>idx := 1\<rparr>" by simp
  have "\<not> idx ?last + 1 < length (schedule ?last)"
    by (simp add: scenario_schedule_def)
  from C4_advance[of ?last, THEN conjunct2, THEN conjunct1, rule_format, OF this]
  have 2: "nextStep ?last = ?last\<lparr>mode := PLAN\<rparr>"
    and "nextStep (nextStep ?last) = nextStep ?last" by blast+
  then have 3: "nextStep (?last\<lparr>mode := PLAN\<rparr>) = ?last\<lparr>mode := PLAN\<rparr>" by simp
  from C4_advance[of "app_with scenario_blocks", THEN conjunct2, THEN conjunct2, rule_format,
      OF startRun_scenario]
  have 4: "buildSchedule (blocks (app_with scenario_blocks)) = Some (Inr scenario_schedule)"
    by simp
  from 1 2 3 4 show ?thesis by (simp add: app_with_def)
qed

text \<open>
  C4 as stated fails: after \<open>next\<close> at the last index of the scenario's run the mode is
  \<open>PLAN\<close>, but the schedule still holds its five steps.
\<close>

theorem C4_schedule_kept_counterexample:
  "startRun (app_with scenario_blocks) =
     Some (Inr ((app_with scenario_blocks)\<lparr>schedule := scenario_schedule, idx := 0, mode := RUN\<rparr>))
   \<and> (nextStep ^^ 4) ((app_with scenario_blocks)\<lparr>schedule := scenario_schedule, idx := 0, mode := RUN\<rparr>)
     = (app_with scenario_blocks)\<lparr>schedule := scenario_schedule, idx := 4, mode := RUN\<rparr>
   \<and> mode (nextStep ((app_with scenario_blocks)\<lparr>schedule := scenario_schedule, idx := 4, mode := RUN\<rparr>))
     = PLAN
   \<and> schedule (nextStep ((app_with scenario_blocks)\<lparr>schedule := scenario_schedule, idx := 4, mode := RUN\<rparr>))
     = scenario_schedule
   \<and> scenario_schedule \<noteq> []"
  by (simp add: startRun_scenario nextStep_def eval_nat_numeral)
     (simp add: scenario_schedule_def app_with_def)

text \<open>
  C6. An edit of a block's round count that goes through leaves the schedule, and so its step
  count, the index and the mode unchanged, in every state; in particular while a run is in
  progress the schedule built at its start keeps its steps.
\<close>

theorem C6_edit_keeps_schedule:
  "rounds_onChange s b v = Inr s' \<longrightarrow>
     schedule s' = schedule s \<and> length (schedule s') = length (schedule s) \<and>
     idx s' = idx s \<and> mode s' = mode s"
  using rounds_onChange_frame[of s b v s'] by auto

text \<open>The theorem on the scenario's run: setting the rounds of the second block to 5 keeps the
  schedule of five steps, while a schedule built from the edited blocks would have eleven.\<close>

theorem C6_edit_keeps_schedule_witness:
  "rounds_onChange ((app_with scenario_blocks)\<lparr>schedule := scenario_schedule, idx := 0, mode := RUN\<rparr>)
       1 ''5''
     = Inr ((app_with (scenario_blocks[1 := (scenario_blocks ! 1)\<lparr>rounds := Fin 5\<rparr>]))
              \<lparr>schedule := scenario_schedule, idx := 0, mode := RUN\<rparr>)
   \<and> length (schedule ((app_with (scenario_blocks[1 := (scenario_blocks ! 1)\<lparr>rounds := Fin 5\<rparr>]))
              \<lparr>schedule := scenario_schedule, idx := 0, mode := RUN\<rparr>)) = 5
   \<and> (\<exists>steps. buildSchedule (scenario_blocks[1 := (scenario_blocks ! 1)\<lparr>rounds := Fin 5\<rparr>])
                 = Some (Inr steps) \<and> length steps = 11)"
proof -
  have e: "rounds_onChange ((app_with scenario_blocks)\<lparr>schedule := scenario_schedule, idx := 0, mode := RUN\<rparr>)
       1 ''5''
     = Inr ((app_with (scenario_blocks[1 := (scenario_blocks ! 1)\<lparr>rounds := Fin 5\<rparr>]))
              \<lparr>schedule := scenario_schedule, idx := 0, mode := RUN\<rparr>)"
    by (simp add: rounds_onChange_def blocks_def workout_def app_with_def scenario_blocks_def
        Number_examples Math_max_def or_num_def)
  from C6_edit_keeps_schedule[THEN mp, OF e]
  have "length (schedule ((app_with (scenario_blocks[1 := (scenario_blocks ! 1)\<lparr>rounds := Fin 5\<rparr>]))
              \<lparr>schedule := scenario_schedule, idx := 0, mode := RUN\<rparr>)) = 5"
    by (simp add: scenario_schedule_def)
  moreover have t: "total_steps (scenario_blocks[1 := (scenario_blocks ! 1)\<lparr>rounds := Fin 5\<rparr>]) = 11"
    by (simp add: total_steps_def scenario_blocks_def block_rounds_def Math_max_def or_num_def
        round_count_def)
  have "buildSchedule (scenario_blocks[1 := (scenario_blocks ! 1)\<lparr>rounds := Fin 5\<rparr>])
          = Some (Inr (all_from 0 (scenario_blocks[1 := (scenario_blocks ! 1)\<lparr>rounds := Fin 5\<rparr>])))"
    unfolding buildSchedule_returns t by (simp add: scenario_blocks_def array_limit_def)
  then have "\<exists>steps. buildSchedule (scenario_blocks[1 := (scenario_blocks ! 1)\<lparr>rounds := Fin 5\<rparr>])
                 = Some (Inr steps) \<and> length steps = 11"
    using t by (simp add: length_all_from)
  ultimately show ?thesis using e by simp
qed

text \<open>
  C7 (as amended). When the selected routine is in the library, an edit of the round count of
  one of its blocks is never rejected, whatever the text of the input: the stored value is
  \<open>Math.max(1, Number(text) || 1)\<close>, a number that is at least 1 (so not \<open>NaN\<close>) but not
  necessarily an integer, and the texts \<open>0\<close>, \<open>-5\<close>, \<open>abc\<close> and the empty text all store
  exactly 1.
\<close>

theorem C7_rounds_coercion:
  "b < length (blocks s) \<and> currentIndex s < length (library s) \<longrightarrow>
     (\<exists>s'. rounds_onChange s b v = Inr s' \<and>
            rounds (blocks s' ! b) = Math_max (Fin 1) (or_num (Number v) (Fin 1)) \<and>
            num_le (Fin 1) (rounds (blocks s' ! b)) \<and>
            (v \<in> {''0'', ''-5'', ''abc'', ''''} \<longrightarrow> rounds (blocks s' ! b) = Fin 1))"
proof
  assume a: "b < length (blocks s) \<and> currentIndex s < length (library s)"
  with rounds_onChange_ok[of b s v] obtain s' where s': "rounds_onChange s b v = Inr s'"
    and b': "blocks s' = (blocks s)[b := (blocks s ! b)\<lparr>rounds :=
                          Math_max (Fin 1) (or_num (Number v) (Fin 1))\<rparr>]"
    by blast
  from a b' have r: "rounds (blocks s' ! b) = Math_max (Fin 1) (or_num (Number v) (Fin 1))"
    by simp
  have "v \<in> {''0'', ''-5'', ''abc'', ''''} \<longrightarrow> rounds (blocks s' ! b) = Fin 1"
    unfolding r using Number_examples by (auto simp: Math_max_def or_num_def)
  with s' r coerce_ge_1[of "Number v"] show "\<exists>s'. rounds_onChange s b v = Inr s' \<and>
            rounds (blocks s' ! b) = Math_max (Fin 1) (or_num (Number v) (Fin 1)) \<and>
            num_le (Fin 1) (rounds (blocks s' ! b)) \<and>
            (v \<in> {''0'', ''-5'', ''abc'', ''''} \<longrightarrow> rounds (blocks s' ! b) = Fin 1)"
    by auto
qed

text \<open>The theorem on the scenario's routine, for the texts \<open>abc\<close> and \<open>-5\<close>.\<close>

theorem C7_rounds_coercion_witness:
  "(1::nat) < length (blocks (app_with scenario_blocks)) \<and>
   currentIndex (app_with scenario_blocks) < length (library (app_with scenario_blocks)) \<and>
   rounds_onChange (app_with scenario_blocks) 1 ''abc''
     = Inr (app_with (scenario_blocks[1 := (scenario_blocks ! 1)\<lparr>rounds := Fin 1\<rparr>])) \<and>
   rounds_onChange (app_with scenario_blocks) 1 ''-5''
     = Inr (app_with (scenario_blocks[1 := (scenario_blocks ! 1)\<lparr>rounds := Fin 1\<rparr>]))"
proof -
  have h: "(1::nat) < length (blocks (app_with scenario_blocks)) \<and>
   currentIndex (app_with scenario_blocks) < length (library (app_with scenario_blocks))"
    by (simp add: app_with_def blocks_def workout_def scenario_blocks_def)
  have "\<And>v s'. rounds_onChange (app_with scenario_blocks) 1 v = Inr s'
      \<Longrightarrow> rounds (blocks s' ! 1) = Fin 1
      \<Longrightarrow> s' = app_with (scenario_blocks[1 := (scenario_blocks ! 1)\<lparr>rounds := Fin 1\<rparr>])"
    by (auto simp: rounds_onChange_def blocks_def workout_def app_with_def scenario_blocks_def
        Let_def split: if_splits)
  with C7_rounds_coercion[rule_format, OF h, of "''abc''"]
    C7_rounds_coercion[rule_format, OF h, of "''-5''"] h
  show ?thesis by auto
qed

text \<open>C7 as stated fails: the text \<open>2.5\<close> stores the round count 2.5, which is not an
  integer.\<close>

theorem C7_fraction_counterexample:
  "rounds_onChange (app_with scenario_blocks) 1 ''2.5''
     = Inr (app_with (scenario_blocks[1 := (scenario_blocks ! 1)\<lparr>rounds := Fin (5 / 2)\<rparr>]))
   \<and> \<not> is_integer (Fin (5 / 2))"
  by (simp add: rounds_onChange_def blocks_def workout_def app_with_def scenario_blocks_def
      Number_examples Math_max_def or_num_def is_integer_def floor_five_halves)

text \<open>
  C8 (as amended). When every block of the routine has no exercises and every round count is
  below \<open>2^53\<close>, \<open>startRun\<close> returns and enters \<open>RUN\<close> with an empty schedule and index 0. Nothing
  throws: \<open>cur\<close>, \<open>currentBlock\<close> and \<open>current\<close> are undefined, the run card is not rendered,
  \<open>next\<close> goes back to \<open>PLAN\<close> and \<open>prev\<close> changes nothing. When every block has no exercises
  and some round count is \<open>2^53\<close> or more, \<open>startRun\<close> does not return.
\<close>

theorem C8_empty_run:
  "((\<forall>blk\<in>set (blocks s). exercises blk = [] \<and> \<not> num_le (Fin (2 ^ 53)) (rounds blk)) \<longrightarrow>
     startRun s = Some (Inr (s\<lparr>schedule := [], idx := 0, mode := RUN\<rparr>)) \<and>
     cur (s\<lparr>schedule := [], idx := 0, mode := RUN\<rparr>) = None \<and>
     currentBlock (s\<lparr>schedule := [], idx := 0, mode := RUN\<rparr>) = None \<and>
     current (s\<lparr>schedule := [], idx := 0, mode := RUN\<rparr>) = None \<and>
     \<not> runCardShown (s\<lparr>schedule := [], idx := 0, mode := RUN\<rparr>) \<and>
     nextStep (s\<lparr>schedule := [], idx := 0, mode := RUN\<rparr>)
       = s\<lparr>schedule := [], idx := 0, mode := PLAN\<rparr> \<and>
     prev (s\<lparr>schedule := [], idx := 0, mode := RUN\<rparr>)
       = s\<lparr>schedule := [], idx := 0, mode := RUN\<rparr>)
   \<and> ((\<forall>blk\<in>set (blocks s). exercises blk = []) \<and>
       (\<exists>blk\<in>set (blocks s). num_le (Fin (2 ^ 53)) (rounds blk)) \<longrightarrow> startRun s = None)"
proof (intro conjI impI)
  assume a: "\<forall>blk\<in>set (blocks s). exercises blk = [] \<and> \<not> num_le (Fin (2 ^ 53)) (rounds blk)"
  then have e: "\<forall>blk\<in>set (blocks s). exercises blk = []" by simp
  then have "total_steps (blocks s) = 0"
    unfolding total_steps_def by (induction "blocks s") simp_all
  with a e have "buildSchedule (blocks s) = Some (Inr [])"
    by (simp add: buildSchedule_returns all_from_no_exercises)
  then show "startRun s = Some (Inr (s\<lparr>schedule := [], idx := 0, mode := RUN\<rparr>))"
    by (simp add: startRun_def)
  show "cur (s\<lparr>schedule := [], idx := 0, mode := RUN\<rparr>) = None"
    "currentBlock (s\<lparr>schedule := [], idx := 0, mode := RUN\<rparr>) = None"
    "current (s\<lparr>schedule := [], idx := 0, mode := RUN\<rparr>) = None"
    "\<not> runCardShown (s\<lparr>schedule := [], idx := 0, mode := RUN\<rparr>)"
    "nextStep (s\<lparr>schedule := [], idx := 0, mode := RUN\<rparr>)
       = s\<lparr>schedule := [], idx := 0, mode := PLAN\<rparr>"
    "prev (s\<lparr>schedule := [], idx := 0, mode := RUN\<rparr>)
       = s\<lparr>schedule := [], idx := 0, mode := RUN\<rparr>"
    by (simp_all add: cur_def currentBlock_def current_def runCardShown_def nextStep_def prev_def)
next
  assume "(\<forall>blk\<in>set (blocks s). exercises blk = []) \<and>
       (\<exists>blk\<in>set (blocks s). num_le (Fin (2 ^ 53)) (rounds blk))"
  then have "forEach_blocks (blocks s) 0 [] = None"
    by (intro no_exercises_never_returns) simp_all
  then show "startRun s = None"
    by (simp add: startRun_def buildSchedule_def)
qed

text \<open>The theorem at a routine whose only block has no exercises, at a routine without
  blocks, and at a block without exercises whose round count is \<open>2^53\<close>.\<close>

theorem C8_empty_run_witness:
  "startRun (app_with [\<lparr>name = ''Rest'', rounds = Fin 3, exercises = []\<rparr>])
     = Some (Inr ((app_with [\<lparr>name = ''Rest'', rounds = Fin 3, exercises = []\<rparr>])
               \<lparr>schedule := [], idx := 0, mode := RUN\<rparr>))
   \<and> current ((app_with [\<lparr>name = ''Rest'', rounds = Fin 3, exercises = []\<rparr>])
               \<lparr>schedule := [], idx := 0, mode := RUN\<rparr>) = None
   \<and> startRun (app_with []) = Some (Inr ((app_with [])\<lparr>schedule := [], idx := 0, mode := RUN\<rparr>))
   \<and> startRun (app_with [\<lparr>name = ''Rest'', rounds = Fin (2 ^ 53), exercises = []\<rparr>]) = None"
proof -
  have 1: "\<forall>blk\<in>set (blocks (app_with [\<lparr>name = ''Rest'', rounds = Fin 3, exercises = []\<rparr>])).
             exercises blk = [] \<and> \<not> num_le (Fin (2 ^ 53)) (rounds blk)"
    by (simp add: blocks_def workout_def app_with_def)
  have 2: "\<forall>blk\<in>set (blocks (app_with [])).
             exercises blk = [] \<and> \<not> num_le (Fin (2 ^ 53)) (rounds blk)"
    by (simp add: blocks_def workout_def app_with_def)
  have 3: "(\<forall>blk\<in>set (blocks (app_with [\<lparr>name = ''Rest'', rounds = Fin (2 ^ 53), exercises = []\<rparr>])).
              exercises blk = []) \<and>
           (\<exists>blk\<in>set (blocks (app_with [\<lparr>name = ''Rest'', rounds = Fin (2 ^ 53), exercises = []\<rparr>])).
              num_le (Fin (2 ^ 53)) (rounds blk))"
    by (simp add: blocks_def workout_def app_with_def)
  from C8_empty_run[THEN conjunct1, THEN mp, OF 1] C8_empty_run[THEN conjunct1, THEN mp, OF 2]
    C8_empty_run[THEN conjunct2, THEN mp, OF 3]
  show ?thesis by simp
qed

text \<open>
  C8 as stated fails: starting a run on a routine without blocks is not a no-op, since the
  mode changes from \<open>PLAN\<close> to \<open>RUN\<close>; and for a block without exercises whose round count is
  \<open>Infinity\<close>, \<open>startRun\<close> does not return.
\<close>

theorem C8_not_a_no_op_counterexample:
  "startRun (app_with []) = Some (Inr ((app_with [])\<lparr>mode := RUN\<rparr>))
   \<and> (app_with [])\<lparr>mode := RUN\<rparr> \<noteq> app_with []
   \<and> startRun (app_with [\<lparr>name = ''Rest'', rounds = PInf, exercises = []\<rparr>]) = None"
proof -
  have "forEach_blocks [\<lparr>name = ''Rest'', rounds = PInf, exercises = []\<rparr>] 0 [] = None"
    by (rule never_returns) simp_all
  moreover have "buildSchedule [] = Some (Inr [])"
    by (simp add: buildSchedule_def)
  ultimately show ?thesis
    by (simp add: startRun_def buildSchedule_def blocks_def workout_def app_with_def)
qed

section \<open>Claims about persistent state\<close>

text \<open>
  C9. The initial value read by \<open>useLocalStorage\<close> is the supplied default when there is no
  \<open>window\<close>, when the store throws, when the key has no item, and when the item does not
  parse; otherwise it is the parsed item. In every case a value is returned: no exception
  leaves the \<open>try\<close> block.
\<close>

theorem C9_load_default:
  "useLocalStorage_init parse None key d = d \<and>
   useLocalStorage_init parse (Some Throws) key d = d \<and>
   (getItem key = None \<longrightarrow> useLocalStorage_init parse (Some (Items getItem)) key d = d) \<and>
   (getItem key = Some raw \<and> parse raw = None \<longrightarrow>
      useLocalStorage_init parse (Some (Items getItem)) key d = d) \<and>
   (getItem key = Some raw \<and> parse raw = Some v \<longrightarrow>
      useLocalStorage_init parse (Some (Items getItem)) key d = v)"
  by (simp add: useLocalStorage_init_def try_body_def)

text \<open>The theorem for a store holding one item: an absent key, an item that does not parse,
  and an item that does.\<close>

theorem C9_load_default_witness:
  "useLocalStorage_init (\<lambda>raw. if raw = ''1'' then Some (1::nat) else None)
     (Some (Items (\<lambda>k. if k = ''workout_current_index'' then Some ''1'' else None)))
     ''mode'' 0 = 0 \<and>
   useLocalStorage_init (\<lambda>raw. if raw = ''1'' then Some (1::nat) else None)
     (Some (Items (\<lambda>k. if k = ''workout_current_index'' then Some ''1x'' else None)))
     ''workout_current_index'' 0 = 0 \<and>
   useLocalStorage_init (\<lambda>raw. if raw = ''1'' then Some (1::nat) else None)
     (Some (Items (\<lambda>k. if k = ''workout_current_index'' then Some ''1'' else None)))
     ''workout_current_index'' 0 = 1"
  using
    C9_load_default[of "\<lambda>raw. if raw = ''1'' then Some (1::nat) else None" "''mode'' " 0
      "\<lambda>k. if k = ''workout_current_index'' then Some ''1'' else None"]
    C9_load_default[of "\<lambda>raw. if raw = ''1'' then Some (1::nat) else None"
      "''workout_current_index''" 0
      "\<lambda>k. if k = ''workout_current_index'' then Some ''1x'' else None" "''1x''"]
    C9_load_default[of "\<lambda>raw. if raw = ''1'' then Some (1::nat) else None"
      "''workout_current_index''" 0
      "\<lambda>k. if k = ''workout_current_index'' then Some ''1'' else None" "''1''" 1]
  by simp

section \<open>Facts about the timer\<close>

lemmas timer_defs = mount_def toggle_def frame_def completion_effect_def onComplete_def
  timestamp_def Math_max_def num_gt_def strict_eq_def same_value_def Let_def
  double_round_numeral double_round_0

lemma double_round_fifth: "double_round (1 / 5) = Fin (3602879701896397 / 18014398509481984)"
proof -
  have b: "bit_length 4 = 3" by (simp add: bit_length.simps)
  have il: "ilog2 (1 / 5) = - 3" by (simp add: ilog2_def b)
  have r: "round_half_even (1 / 5 / pow2 (- 3 - 52)) = 7205759403792794"
    by (rule round_half_even_near) (simp_all add: pow2_def)
  have "double_round (1 / 5) = Fin (of_int 7205759403792794 * pow2 (- 3 - 52))"
    by (rule double_round_pos[OF _ il _ r]) (simp_all add: pow2_def)
  then show ?thesis by (simp add: pow2_def)
qed

lemma bit_length_5000: "bit_length 5000 = 13" "bit_length 4999 = 13"
  by (simp_all add: bit_length.simps)

lemma double_round_5000_2:
  "double_round (25001 / 5) = Fin (5497778041205555 / 1099511627776)"
proof -
  have f: "\<lfloor>25001 / 5 :: rat\<rfloor> = 5000" by (rule floor_unique) simp_all
  have il: "ilog2 (25001 / 5) = 12"
    by (simp only: ilog2_def f) (simp add: bit_length_5000)
  have r: "round_half_even (25001 / 5 / pow2 (12 - 52)) = 5497778041205555"
    by (rule round_half_even_near) (simp_all add: pow2_def)
  have "double_round (25001 / 5) = Fin (of_int 5497778041205555 * pow2 (12 - 52))"
    by (rule double_round_pos[OF _ il _ r]) (simp_all add: pow2_def)
  then show ?thesis by (simp add: pow2_def)
qed

lemma double_round_elapsed:
  "double_round (5497778041205555 / 1099511627776 - 3602879701896397 / 18014398509481984)
     = Fin 5000"
proof -
  let ?x = "5497778041205555 / 1099511627776 - 3602879701896397 / 18014398509481984 :: rat"
  have f: "\<lfloor>?x\<rfloor> = 4999" by (rule floor_unique) simp_all
  have il: "ilog2 ?x = 12"
    by (simp only: ilog2_def f) (simp add: bit_length_5000)
  have r: "round_half_even (?x / pow2 (12 - 52)) = 5497558138880000"
    by (rule round_half_even_near) (simp_all add: pow2_def)
  have "double_round ?x = Fin (of_int 5497558138880000 * pow2 (12 - 52))"
    by (rule double_round_pos[OF _ il _ r]) (simp_all add: pow2_def)
  then show ?thesis by (simp add: pow2_def)
qed

text \<open>The subtraction of timestamps is the subtraction of doubles: a countdown of 5000 ms
  started at time 0.2 is complete at the frame of time 5000.2, because the difference of the
  two doubles rounds to 5000.\<close>

lemma frame_rounds_elapsed:
  "run_events [Toggle (1 / 5), Frame (25001 / 5)] (mount (Fin 5000) False False 0)
     = \<lparr>ms = Fin 5000, running = True, remaining = Fin 0, rafStart = None,
        timerDone = True, completions = 2\<rparr>"
  using double_round_elapsed
  by (simp add: timer_defs double_round_fifth double_round_5000_2)

section \<open>Claims about the countdown timer\<close>

text \<open>
  C3, evaluated on a countdown of 5000 ms whose timer is mounted at time 0 and started at once.
  The frame at time 2000 leaves 3000 ms. The pause at time 2000 cancels the pending frame and
  keeps the 3000 ms, also over a frame at time 2500, and so does the resume at time 3000. But
  the first frame after the resume computes \<open>remaining\<close> from the full \<open>ms\<close> and the new
  \<open>start\<close>: at time 3016 it is 4984 ms, and with the timestamp of the resume itself it is
  5000 ms. The 2000 ms counted before the pause are lost, so the claim fails on the code.
\<close>

theorem C3_resume_restarts:
  "run_events [Toggle 0, Frame 2000] (mount (Fin 5000) False False 0)
     = \<lparr>ms = Fin 5000, running = True, remaining = Fin 3000, rafStart = Some (Fin 0),
        timerDone = False, completions = 0\<rparr>
   \<and> run_events [Toggle 0, Frame 2000, Toggle 2000] (mount (Fin 5000) False False 0)
     = \<lparr>ms = Fin 5000, running = False, remaining = Fin 3000, rafStart = None,
        timerDone = False, completions = 0\<rparr>
   \<and> run_events [Toggle 0, Frame 2000, Toggle 2000, Frame 2500] (mount (Fin 5000) False False 0)
     = \<lparr>ms = Fin 5000, running = False, remaining = Fin 3000, rafStart = None,
        timerDone = False, completions = 0\<rparr>
   \<and> run_events [Toggle 0, Frame 2000, Toggle 2000, Frame 2500, Toggle 3000]
        (mount (Fin 5000) False False 0)
     = \<lparr>ms = Fin 5000, running = True, remaining = Fin 3000, rafStart = Some (Fin 3000),
        timerDone = False, completions = 0\<rparr>
   \<and> run_events [Toggle 0, Frame 2000, Toggle 2000, Frame 2500, Toggle 3000, Frame 3016]
        (mount (Fin 5000) False False 0)
     = \<lparr>ms = Fin 5000, running = True, remaining = Fin 4984, rafStart = Some (Fin 3000),
        timerDone = False, completions = 0\<rparr>
   \<and> run_events [Toggle 0, Frame 2000, Toggle 2000, Frame 2500, Toggle 3000, Frame 3000]
        (mount (Fin 5000) False False 0)
     = \<lparr>ms = Fin 5000, running = True, remaining = Fin 5000, rafStart = Some (Fin 3000),
        timerDone = False, completions = 0\<rparr>"
  by (simp add: timer_defs)

text \<open>
  C5, evaluated on a countdown of 5000 ms whose timer is mounted at time 0 and started at once.
  The frame at time 5000 sets \<open>remaining\<close> to 0, requests no further frame and sets \<open>timerDone\<close>;
  a later frame changes nothing. \<open>onComplete\<close> has then been called twice, not once: the first
  call changes \<open>timerDone\<close>, \<open>App\<close> renders again with a new \<open>onComplete\<close>, and the completion
  effect runs again. Every later render of \<open>App\<close> calls it once more: the pause at time 6000 and
  the resume at time 7000. After that resume a frame is pending again, and the frame at time
  8000 sets \<open>remaining\<close> to 4000: the completed countdown has restarted with no step transition,
  and it completes again at time 12000. So the claim fails on the code.
\<close>

theorem C5_completed_timer_restarts:
  "run_events [Toggle 0, Frame 5000] (mount (Fin 5000) False False 0)
     = \<lparr>ms = Fin 5000, running = True, remaining = Fin 0, rafStart = None,
        timerDone = True, completions = 2\<rparr>
   \<and> run_events [Toggle 0, Frame 5000, Frame 5016] (mount (Fin 5000) False False 0)
     = \<lparr>ms = Fin 5000, running = True, remaining = Fin 0, rafStart = None,
        timerDone = True, completions = 2\<rparr>
   \<and> run_events [Toggle 0, Frame 5000, Frame 5016, Toggle 6000] (mount (Fin 5000) False False 0)
     = \<lparr>ms = Fin 5000, running = False, remaining = Fin 0, rafStart = None,
        timerDone = True, completions = 3\<rparr>
   \<and> run_events [Toggle 0, Frame 5000, Frame 5016, Toggle 6000, Toggle 7000]
        (mount (Fin 5000) False False 0)
     = \<lparr>ms = Fin 5000, running = True, remaining = Fin 0, rafStart = Some (Fin 7000),
        timerDone = True, completions = 4\<rparr>
   \<and> run_events [Toggle 0, Frame 5000, Frame 5016, Toggle 6000, Toggle 7000, Frame 8000]
        (mount (Fin 5000) False False 0)
     = \<lparr>ms = Fin 5000, running = True, remaining = Fin 4000, rafStart = Some (Fin 7000),
        timerDone = True, completions = 4\<rparr>
   \<and> run_events [Toggle 0, Frame 5000, Frame 5016, Toggle 6000, Toggle 7000, Frame 8000,
                  Frame 12000] (mount (Fin 5000) False False 0)
     = \<lparr>ms = Fin 5000, running = True, remaining = Fin 0, rafStart = None,
        timerDone = True, completions = 5\<rparr>"
  by (simp add: timer_defs)

end
